theory Spec2Isabelle
  imports Complex_Main "HOL-Library.Option_ord" "HOL-Library.Multiset"
begin

section \<open>Values shared by the script\<close>

text \<open>
  The script \<^verbatim>\<open>multilingual/interact_id.py\<close> is modelled function by function.
  Python exceptions are values of \<open>py_error\<close>; a function that can raise returns
  \<open>py_error + 'a\<close>, and a function that also changes state (the console, the random
  generators, the transcript files) returns an \<open>outcome\<close>, which keeps the state reached
  when the exception left the function.  \<open>Diverges\<close> is the outcome of a loop that never
  ends.
\<close>

datatype py_error =
    KeyError
  | IndexError
  | ValueError
  | EOFError
  | RuntimeError
  | OSError
  | ArgparseExit string
  | LoadError string

datatype ('a, 's) outcome = Returns 'a 's | Raises py_error 's | Diverges

type_synonym token = int
type_synonym utterance = "token list"
type_synonym special_map = "string \<Rightarrow> token option"

text \<open>\<^verbatim>\<open>[special_map[token] for token in tokens]\<close>: the first missing key raises.\<close>

fun lookup_all :: "special_map \<Rightarrow> string list \<Rightarrow> py_error + token list" where
  "lookup_all m [] = Inr []"
| "lookup_all m (k # ks) =
     (case m k of
        None \<Rightarrow> Inl KeyError
      | Some v \<Rightarrow> (case lookup_all m ks of Inl e \<Rightarrow> Inl e | Inr vs \<Rightarrow> Inr (v # vs)))"

text \<open>
  \<^verbatim>\<open>xs[s:]\<close> for a Python list: a negative start counts from the end, and the start is
  clamped to the list.  The history window is \<^verbatim>\<open>history[-args.max_turns:]\<close>, that is
  \<open>py_slice_from (- max_turns) history\<close>; for \<open>max_turns = 0\<close> the start is \<open>0\<close>.
\<close>

definition py_slice_from :: "int \<Rightarrow> 'a list \<Rightarrow> 'a list" where
  "py_slice_from s xs =
     (let n = int (length xs);
          s' = (if s < 0 then max 0 (s + n) else min s n)
      in drop (nat s') xs)"

section \<open>build_input_from_segments\<close>

record segments =
  input_ids :: "token list"
  token_type_ids :: "token list"
  lm_labels :: "token list"
  lang_id :: "token list"

text \<open>
  \<open>SPECIAL_TOKENS\<close> is imported from \<^verbatim>\<open>train_id\<close>, which is not part of the sources: it
  is the first parameter.  The \<^verbatim>\<open>tokenizer\<close> argument is never read by the function and
  is left out.  Unpacking the first five special tokens into five names raises
  \<^verbatim>\<open>ValueError\<close> when there are fewer than five.
\<close>

definition speaker_of :: "token \<Rightarrow> token \<Rightarrow> nat \<Rightarrow> token" where
  "speaker_of speaker1 speaker2 i = (if i mod 2 \<noteq> 0 then speaker2 else speaker1)"

definition build_input_from_segments ::
  "string list \<Rightarrow> utterance list \<Rightarrow> utterance list \<Rightarrow> utterance \<Rightarrow> string \<Rightarrow> special_map
     \<Rightarrow> bool \<Rightarrow> bool \<Rightarrow> py_error + segments" where
  "build_input_from_segments SPECIAL_TOKENS persona history reply lang special_map
       with_labels with_eos =
     (case lookup_all special_map (take 5 SPECIAL_TOKENS) of
        Inl e \<Rightarrow> Inl e
      | Inr vs \<Rightarrow>
          if length vs \<noteq> 5 then Inl ValueError
          else
            (case special_map lang of
               None \<Rightarrow> Inl KeyError
             | Some lang_tok \<Rightarrow>
                 let bos = vs ! 0; eos = vs ! 1; persona_token = vs ! 2;
                     speaker1 = vs ! 3; speaker2 = vs ! 4;
                     personality = concat (map (\<lambda>sent. persona_token # sent) persona);
                     sequence0 = personality # history;
                     sequence = hd sequence0 #
                       map (\<lambda>(i, s). speaker_of speaker1 speaker2 i # s)
                         (enumerate 0 (tl sequence0));
                     response = bos # reply @ (if with_eos then [eos] else [])
                 in Inr \<lparr> input_ids = concat sequence,
                          token_type_ids =
                            replicate (length (hd sequence)) persona_token @
                            concat (map (\<lambda>(i, s). map (\<lambda>_. speaker_of speaker1 speaker2 i) s)
                                      (enumerate 0 (tl sequence))),
                          lm_labels =
                            (if with_labels then response
                             else replicate (length response) (- 1)),
                          lang_id = [lang_tok] \<rparr>))"

section \<open>top_filtering\<close>

subsection \<open>The function over the tensor operations of torch\<close>

text \<open>
  The tensor operations are library code: they are the fields of the record \<open>torch\<close>,
  over a type \<open>'t\<close> of tensor elements.  So the function is modelled for the
  floating-point numbers of torch, whatever they round to, infinities and NaN included.
  \<open>lt\<close> is \<^verbatim>\<open><\<close> on two elements, \<open>gt_float\<close> is \<^verbatim>\<open>>\<close> of an element and a Python float,
  \<open>neg_inf\<close> is \<^verbatim>\<open>-float('Inf')\<close> as an element; \<open>torch_sort\<close> is
  \<^verbatim>\<open>torch.sort(x, descending=True)\<close> and \<open>torch_topk\<close> is \<^verbatim>\<open>torch.topk(x, k)\<close>, both as the
  list of the values with their indices; \<open>div_float\<close> divides a tensor by a Python
  number and \<open>max_is_one\<close> is \<^verbatim>\<open>probs.max().item() == 1\<close>.
\<close>

record 't torch =
  lt :: "'t \<Rightarrow> 't \<Rightarrow> bool"
  gt_float :: "'t \<Rightarrow> real \<Rightarrow> bool"
  neg_inf :: "'t"
  torch_sort :: "'t list \<Rightarrow> ('t \<times> nat) list"
  torch_topk :: "'t list \<Rightarrow> nat \<Rightarrow> ('t \<times> nat) list"
  F_softmax :: "'t list \<Rightarrow> 't list"
  torch_cumsum :: "'t list \<Rightarrow> 't list"
  div_float :: "'t list \<Rightarrow> real \<Rightarrow> 't list"
  max_is_one :: "'t list \<Rightarrow> bool"

text \<open>\<^verbatim>\<open>logits[mask] = v\<close> for a boolean mask, and \<^verbatim>\<open>logits[indices] = v\<close> for indices.\<close>

definition mask_fill :: "'a list \<Rightarrow> bool list \<Rightarrow> 'a \<Rightarrow> 'a list" where
  "mask_fill xs bs v = map (\<lambda>(x, b). if b then v else x) (zip xs bs)"

definition index_fill :: "'a list \<Rightarrow> nat list \<Rightarrow> 'a \<Rightarrow> 'a list" where
  "index_fill xs idxs v = fold (\<lambda>i ys. ys[i := v]) idxs xs"

text \<open>
  The nucleus branch (\<^verbatim>\<open>if top_p > 0.0\<close>).  Writing position \<open>0\<close> of the shifted mask
  raises \<^verbatim>\<open>IndexError\<close> on an empty tensor.
\<close>

definition top_p_filter_with :: "'t torch \<Rightarrow> 't list \<Rightarrow> real \<Rightarrow> 't \<Rightarrow> py_error + 't list" where
  "top_p_filter_with T logits top_p filter_value =
     (let pairs = torch_sort T logits;
          sorted_logits = map fst pairs;
          sorted_indices = map snd pairs;
          cumulative_probabilities = torch_cumsum T (F_softmax T sorted_logits);
          sorted_indices_to_remove = map (\<lambda>c. gt_float T c top_p) cumulative_probabilities;
          shifted = take 1 sorted_indices_to_remove @ butlast sorted_indices_to_remove
      in if shifted = [] then Inl IndexError
         else
           let cleared = shifted[0 := False];
               indices_to_remove = map fst (filter snd (zip sorted_indices cleared))
           in Inr (index_fill logits indices_to_remove filter_value))"

definition top_filtering_with ::
  "'t torch \<Rightarrow> 't list \<Rightarrow> int \<Rightarrow> real \<Rightarrow> 't \<Rightarrow> 't \<Rightarrow> py_error + 't list" where
  "top_filtering_with T logits top_k top_p threshold filter_value =
     (let k = min top_k (int (length logits));
          logits1 =
            (if k > 0
             then mask_fill logits
                    (map (\<lambda>x. lt T x (fst (last (torch_topk T logits (nat k))))) logits)
                    filter_value
             else logits)
      in case (if top_p > 0 then top_p_filter_with T logits1 top_p filter_value
               else Inr logits1) of
           Inl e \<Rightarrow> Inl e
         | Inr logits2 \<Rightarrow>
             Inr (mask_fill logits2 (map (\<lambda>x. lt T x threshold) logits2) filter_value))"






subsection \<open>Exact arithmetic\<close>

text \<open>
  The function on idealised tensors.  A logit is a real number or minus infinity (the
  \<^verbatim>\<open>filter_value\<close>): \<open>None\<close> is minus infinity and lies below every \<open>Some r\<close> in the order
  of \<open>HOL-Library.Option_ord\<close>.  Arithmetic is exact, and plus infinity and NaN inputs are
  outside these tensors.  The one NaN the function can produce from such inputs, the
  softmax of a tensor that is minus infinity everywhere, is the value \<open>None\<close> of
  \<open>softmax\<close>; every comparison with it is false, as in the source.
\<close>

type_synonym logit = "real option"

abbreviation NegInf :: logit where
  "NegInf \<equiv> None"

abbreviation Fin :: "real \<Rightarrow> logit" where
  "Fin \<equiv> Some"

definition expl :: "logit \<Rightarrow> real" where
  "expl x = (case x of None \<Rightarrow> 0 | Some r \<Rightarrow> exp r)"

definition softmax :: "logit list \<Rightarrow> real list option" where
  "softmax xs =
     (if xs \<noteq> [] \<and> list_all (\<lambda>x. x = NegInf) xs then None
      else Some (map (\<lambda>x. expl x / sum_list (map expl xs)) xs))"

fun cumsum_from :: "real \<Rightarrow> real list \<Rightarrow> real list" where
  "cumsum_from acc [] = []"
| "cumsum_from acc (x # xs) = (acc + x) # cumsum_from (acc + x) xs"

definition cumsum :: "real list \<Rightarrow> real list" where
  "cumsum xs = cumsum_from 0 xs"

text \<open>
  \<^verbatim>\<open>torch.sort(logits, descending=True)\<close> returns the values and their indices.  The
  order of equal values is not fixed by torch; the model keeps them in index order.
\<close>

fun insort_desc :: "logit \<times> nat \<Rightarrow> (logit \<times> nat) list \<Rightarrow> (logit \<times> nat) list" where
  "insort_desc p [] = [p]"
| "insort_desc p (q # qs) = (if fst p < fst q then q # insort_desc p qs else p # q # qs)"

definition torch_sort_desc :: "logit list \<Rightarrow> (logit \<times> nat) list" where
  "torch_sort_desc xs = foldr insort_desc (zip xs [0..<length xs]) []"

text \<open>\<^verbatim>\<open>torch.topk(logits, k)[0][..., -1]\<close>, the \<open>k\<close>-th largest value, for \<open>0 < k \<le> n\<close>.\<close>

definition topk_last :: "logit list \<Rightarrow> nat \<Rightarrow> logit" where
  "topk_last xs k = map fst (torch_sort_desc xs) ! (k - 1)"

definition top_p_filter :: "logit list \<Rightarrow> real \<Rightarrow> logit \<Rightarrow> py_error + logit list" where
  "top_p_filter logits top_p filter_value =
     (let pairs = torch_sort_desc logits;
          sorted_logits = map fst pairs;
          sorted_indices = map snd pairs;
          sorted_indices_to_remove =
            (case softmax sorted_logits of
               None \<Rightarrow> map (\<lambda>_. False) sorted_logits
             | Some ps \<Rightarrow> map (\<lambda>c. c > top_p) (cumsum ps));
          shifted = take 1 sorted_indices_to_remove @ butlast sorted_indices_to_remove
      in if shifted = [] then Inl IndexError
         else
           let cleared = shifted[0 := False];
               indices_to_remove = map fst (filter snd (zip sorted_indices cleared))
           in Inr (index_fill logits indices_to_remove filter_value))"

definition top_filtering ::
  "logit list \<Rightarrow> int \<Rightarrow> real \<Rightarrow> logit \<Rightarrow> logit \<Rightarrow> py_error + logit list" where
  "top_filtering logits top_k top_p threshold filter_value =
     (let k = min top_k (int (length logits));
          logits1 =
            (if k > 0
             then mask_fill logits (map (\<lambda>x. x < topk_last logits (nat k)) logits) filter_value
             else logits)
      in case (if top_p > 0 then top_p_filter logits1 top_p filter_value else Inr logits1) of
           Inl e \<Rightarrow> Inl e
         | Inr logits2 \<Rightarrow>
             Inr (mask_fill logits2 (map (\<lambda>x. x < threshold) logits2) filter_value))"

text \<open>
  The operations of torch in exact arithmetic.  A probability tensor that is NaN
  everywhere is written \<open>None\<close> everywhere: it exceeds no Python float.  The function
  above is the function over these operations (lemma \<open>top_filtering_exact\<close>).  A
  division by zero has no exact value (in HOL \<open>x / 0 = 0\<close>): a temperature of zero is
  outside these operations.
\<close>

definition exact_softmax :: "logit list \<Rightarrow> logit list" where
  "exact_softmax xs =
     (case softmax xs of None \<Rightarrow> map (\<lambda>x. None) xs | Some ps \<Rightarrow> map Some ps)"

definition exact_cumsum :: "logit list \<Rightarrow> logit list" where
  "exact_cumsum ps =
     (if list_all (\<lambda>x. x \<noteq> None) ps then map Some (cumsum (map the ps))
      else map (\<lambda>x. None) ps)"

definition exact_torch :: "logit torch" where
  "exact_torch =
     \<lparr> lt = (\<lambda>x y. x < y),
       gt_float = (\<lambda>c p. case c of None \<Rightarrow> False | Some x \<Rightarrow> p < x),
       neg_inf = NegInf,
       torch_sort = torch_sort_desc,
       torch_topk = (\<lambda>xs k. take k (torch_sort_desc xs)),
       F_softmax = exact_softmax,
       torch_cumsum = exact_cumsum,
       div_float = (\<lambda>xs t. map (map_option (\<lambda>x. x / t)) xs),
       max_is_one = (\<lambda>ps. ps \<noteq> [] \<and> fold max (tl ps) (hd ps) = Some 1) \<rparr>"

text \<open>
  For the statement about nucleus filtering, in the words of the specification: the
  softmax probability of a token (and the probabilities in descending order of the
  logits), and what it is for a set \<open>K\<close> of tokens to be a smallest
  set of highest-probability tokens whose cumulative probability exceeds \<open>p\<close>: no token
  outside \<open>K\<close> has a larger logit than one inside, the probabilities in \<open>K\<close> add up to more
  than \<open>p\<close>, and no set of tokens that adds up to more than \<open>p\<close> has fewer elements.
\<close>

definition probability :: "logit list \<Rightarrow> nat \<Rightarrow> real" where
  "probability logits i = expl (logits ! i) / sum_list (map expl logits)"

definition sorted_probs :: "logit list \<Rightarrow> real list" where
  "sorted_probs logits =
     map (\<lambda>x. expl x / sum_list (map expl logits)) (map fst (torch_sort_desc logits))"

definition nucleus :: "logit list \<Rightarrow> real \<Rightarrow> nat set \<Rightarrow> bool" where
  "nucleus logits p K =
     (K \<subseteq> {..<length logits} \<and>
      p < (\<Sum>i\<in>K. probability logits i) \<and>
      (\<forall>i\<in>K. \<forall>j<length logits. j \<notin> K \<longrightarrow> logits ! j \<le> logits ! i) \<and>
      (\<forall>K'. K' \<subseteq> {..<length logits} \<and> p < (\<Sum>i\<in>K'. probability logits i)
         \<longrightarrow> card K \<le> card K'))"

section \<open>The command line\<close>

record args =
  dataset_path :: string
  dataset_cache :: string
  model_name :: string
  model_checkpoint :: string
  max_turns :: int
  device :: string
  no_sample :: bool
  max_length :: int
  min_length :: int
  seed :: int
  temperature :: real
  top_k :: int
  top_p :: real
  self_play :: bool

text \<open>
  The defaults of the fourteen \<^verbatim>\<open>add_argument\<close> calls.  argparse converts a default only
  when it is a string, so the default temperature stays \<open>0.7\<close> although the option is
  declared \<^verbatim>\<open>type=int\<close>.  The flag \<^verbatim>\<open>--model\<close> is the field \<open>model_name\<close>.
\<close>

definition default_args :: "bool \<Rightarrow> args" where
  "default_args cuda =
     \<lparr> dataset_path = [], dataset_cache = ''./dataset_cache'', model_name = ''bert'',
       model_checkpoint = [], max_turns = 3,
       device = (if cuda then ''cuda'' else ''cpu''), no_sample = False,
       max_length = 20, min_length = 1, seed = 0, temperature = 7 / 10,
       top_k = 0, top_p = 9 / 10, self_play = False \<rparr>"

text \<open>
  Python's \<^verbatim>\<open>int(s)\<close> on a string: white space around, an optional sign, then decimal
  digits, with single underscores allowed between digits.  Strings are byte strings: on
  an ASCII string \<^verbatim>\<open>int\<close> strips the six white space characters of C (tab to carriage
  return, and the space), while \<^verbatim>\<open>str.split\<close> also splits at the separators U+001C to
  U+001F.  Decimal digits outside ASCII, which \<^verbatim>\<open>int\<close> reads too, are not modelled.
\<close>

definition is_digit :: "char \<Rightarrow> bool" where
  "is_digit c = (48 \<le> (of_char c :: nat) \<and> (of_char c :: nat) \<le> 57)"

definition is_ascii_space :: "char \<Rightarrow> bool" where
  "is_ascii_space c =
     ((9 \<le> (of_char c :: nat) \<and> (of_char c :: nat) \<le> 13) \<or>
      (28 \<le> (of_char c :: nat) \<and> (of_char c :: nat) \<le> 32))"

definition is_c_space :: "char \<Rightarrow> bool" where
  "is_c_space c =
     ((9 \<le> (of_char c :: nat) \<and> (of_char c :: nat) \<le> 13) \<or> (of_char c :: nat) = 32)"

definition py_strip :: "string \<Rightarrow> string" where
  "py_strip s = rev (dropWhile is_c_space (rev (dropWhile is_c_space s)))"

fun no_double_underscore :: "string \<Rightarrow> bool" where
  "no_double_underscore (a # b # cs) =
     (\<not> (a = CHR ''_'' \<and> b = CHR ''_'') \<and> no_double_underscore (b # cs))"
| "no_double_underscore cs = True"

definition int_digits :: "string \<Rightarrow> bool" where
  "int_digits s =
     (s \<noteq> [] \<and> is_digit (hd s) \<and> is_digit (last s) \<and>
      list_all (\<lambda>c. is_digit c \<or> c = CHR ''_'') s \<and> no_double_underscore s)"

definition digits_value :: "string \<Rightarrow> int" where
  "digits_value s =
     fold (\<lambda>c n. if is_digit c then 10 * n + (int (of_char c) - 48) else n) s 0"

definition py_int :: "string \<Rightarrow> int option" where
  "py_int s =
     (case py_strip s of
        [] \<Rightarrow> None
      | c # cs \<Rightarrow>
          if c = CHR ''-'' then (if int_digits cs then Some (- digits_value cs) else None)
          else if c = CHR ''+'' then (if int_digits cs then Some (digits_value cs) else None)
          else if int_digits (c # cs) then Some (digits_value (c # cs))
          else None)"

text \<open>
  The parser, for command lines written with the full flag names and each value in the
  argument after its flag (argparse also accepts unambiguous prefixes and
  \<^verbatim>\<open>--flag=value\<close>, which are not modelled).  An argparse error prints the message and
  leaves the process through \<^verbatim>\<open>SystemExit(2)\<close>; it is the error \<open>ArgparseExit\<close>.
  \<^verbatim>\<open>float\<close> is a parameter.  An argument that starts with \<^verbatim>\<open>-\<close> and is not a negative
  number is read as a flag, never as a value.
\<close>

definition negative_number :: "string \<Rightarrow> bool" where
  "negative_number s =
     (case s of
        [] \<Rightarrow> False
      | c # cs \<Rightarrow>
          c = CHR ''-'' \<and>
          ((cs \<noteq> [] \<and> list_all is_digit cs) \<or>
           (let ds = dropWhile is_digit cs
            in ds \<noteq> [] \<and> hd ds = CHR ''.'' \<and> tl ds \<noteq> [] \<and> list_all is_digit (tl ds))))"

definition option_like :: "string \<Rightarrow> bool" where
  "option_like s =
     (case s of
        [] \<Rightarrow> False
      | c # cs \<Rightarrow> c = CHR ''-'' \<and> cs \<noteq> [] \<and> \<not> negative_number s \<and> CHR '' '' \<notin> set s)"

definition value_flags :: "string list" where
  "value_flags =
     [''--dataset_path'', ''--dataset_cache'', ''--model'', ''--model_checkpoint'',
      ''--max_turns'', ''--device'', ''--max_length'', ''--min_length'', ''--seed'',
      ''--temperature'', ''--top_k'', ''--top_p'']"

definition int_value :: "string \<Rightarrow> string \<Rightarrow> py_error + int" where
  "int_value flag v =
     (case py_int v of
        None \<Rightarrow>
          Inl (ArgparseExit
                 (''argument '' @ flag @ '': invalid int value: '' @ [CHR 0x27] @ v @ [CHR 0x27]))
      | Some n \<Rightarrow> Inr n)"

definition float_value :: "(string \<Rightarrow> real option) \<Rightarrow> string \<Rightarrow> string \<Rightarrow> py_error + real" where
  "float_value py_float flag v =
     (case py_float v of
        None \<Rightarrow>
          Inl (ArgparseExit
                 (''argument '' @ flag @ '': invalid float value: '' @ [CHR 0x27] @ v @ [CHR 0x27]))
      | Some x \<Rightarrow> Inr x)"

definition store_value ::
  "(string \<Rightarrow> real option) \<Rightarrow> string \<Rightarrow> string \<Rightarrow> args \<Rightarrow> py_error + args" where
  "store_value py_float flag v a =
     (if flag = ''--dataset_path'' then Inr (a\<lparr>dataset_path := v\<rparr>)
      else if flag = ''--dataset_cache'' then Inr (a\<lparr>dataset_cache := v\<rparr>)
      else if flag = ''--model'' then Inr (a\<lparr>model_name := v\<rparr>)
      else if flag = ''--model_checkpoint'' then Inr (a\<lparr>model_checkpoint := v\<rparr>)
      else if flag = ''--device'' then Inr (a\<lparr>device := v\<rparr>)
      else if flag = ''--top_p'' then
        (case float_value py_float flag v of Inl e \<Rightarrow> Inl e | Inr x \<Rightarrow> Inr (a\<lparr>top_p := x\<rparr>))
      else
        (case int_value flag v of
           Inl e \<Rightarrow> Inl e
         | Inr n \<Rightarrow>
             if flag = ''--max_turns'' then Inr (a\<lparr>max_turns := n\<rparr>)
             else if flag = ''--max_length'' then Inr (a\<lparr>max_length := n\<rparr>)
             else if flag = ''--min_length'' then Inr (a\<lparr>min_length := n\<rparr>)
             else if flag = ''--seed'' then Inr (a\<lparr>seed := n\<rparr>)
             else if flag = ''--temperature'' then Inr (a\<lparr>temperature := of_int n\<rparr>)
             else Inr (a\<lparr>top_k := n\<rparr>)))"

fun parse_argv :: "(string \<Rightarrow> real option) \<Rightarrow> string list \<Rightarrow> args \<Rightarrow> py_error + args" where
  "parse_argv py_float [] a = Inr a"
| "parse_argv py_float (flag # rest) a =
     (if flag = ''--no_sample'' then parse_argv py_float rest (a\<lparr>no_sample := True\<rparr>)
      else if flag = ''--self_play'' then parse_argv py_float rest (a\<lparr>self_play := True\<rparr>)
      else if flag \<in> set value_flags then
        (case rest of
           [] \<Rightarrow> Inl (ArgparseExit (''argument '' @ flag @ '': expected one argument''))
         | v # rest' \<Rightarrow>
             if option_like v
             then Inl (ArgparseExit (''argument '' @ flag @ '': expected one argument''))
             else
               (case store_value py_float flag v a of
                  Inl e \<Rightarrow> Inl e
                | Inr a' \<Rightarrow> parse_argv py_float rest' a'))
      else Inl (ArgparseExit (''unrecognized arguments: '' @ flag)))"

definition parse_args :: "(string \<Rightarrow> real option) \<Rightarrow> bool \<Rightarrow> string list \<Rightarrow> py_error + args" where
  "parse_args py_float cuda argv = parse_argv py_float argv (default_args cuda)"

section \<open>The environment of the script\<close>

text \<open>
  What the script takes from outside its own file is a field of \<open>env\<close>: the constant
  \<open>SPECIAL_TOKENS\<close> of \<^verbatim>\<open>train_id\<close>, the tensor operations of torch, the network's
  forward pass (the logits of the last position, \<^verbatim>\<open>logits[0, -1, :]\<close>), the random draws
  of \<^verbatim>\<open>torch.multinomial\<close> (which raises on a tensor that is no distribution) and
  \<^verbatim>\<open>random.choice\<close> over a generator state \<open>'r\<close>, the tokenizer, the loaders of the
  checkpoint, \<^verbatim>\<open>get_dataset\<close> of \<^verbatim>\<open>utils\<close> (the personas of the test split by language),
  and whether a file can be opened for appending.  A loader returns the exception it
  raises, if any.  Log records and warnings are not modelled.
\<close>

record ('r, 't) env =
  special_tokens :: "string list"
  torch :: "'t torch"
  forward :: "segments \<Rightarrow> 't list"
  multinomial :: "'r \<Rightarrow> 't list \<Rightarrow> py_error + nat \<times> 'r"
  random_index :: "'r \<Rightarrow> nat \<Rightarrow> nat \<times> 'r"
  reseed :: "int \<Rightarrow> 'r \<Rightarrow> 'r"
  encode :: "string \<Rightarrow> utterance"
  decode :: "utterance \<Rightarrow> string"
  py_float :: "string \<Rightarrow> real option"
  cuda_available :: bool
  tokenizer_from_pretrained :: "string \<Rightarrow> py_error option"
  config_from_pretrained :: "string \<Rightarrow> py_error option"
  model_from_pretrained :: "string \<Rightarrow> py_error option"
  open_read :: "string \<Rightarrow> py_error + string"
  json_load :: "string \<Rightarrow> py_error + special_map"
  load_state_dict :: "string \<Rightarrow> py_error option"
  model_to :: "string \<Rightarrow> py_error option"
  get_dataset :: "string \<Rightarrow> string \<Rightarrow> py_error + (string \<Rightarrow> utterance list list option)"
  can_append :: "string \<Rightarrow> bool"

section \<open>sample_sequence\<close>

text \<open>
  The loop that draws again while the token is special (a minimum length is asked for).
  It ends when the draw is no special token, when \<^verbatim>\<open>probs.max().item() == 1\<close>, or when
  \<^verbatim>\<open>torch.multinomial\<close> raises; otherwise it ends only if the generator ever draws a
  token that is not special, so it is a partial function: \<open>None\<close> is the loop that never
  ends.
\<close>

partial_function (option) resample ::
  "('r, 't) env \<Rightarrow> 't list \<Rightarrow> token list \<Rightarrow> nat \<Rightarrow> 'r \<Rightarrow> (py_error \<times> 'r + nat \<times> 'r) option" where
  "resample env probs special_tokens_ids prev r =
     (if int prev \<in> set special_tokens_ids then
        (if max_is_one (torch env) probs then Some (Inr (prev, r))
         else (case multinomial env r probs of
                 Inl e \<Rightarrow> Some (Inl (e, r))
               | Inr (prev', r') \<Rightarrow> resample env probs special_tokens_ids prev' r'))
      else Some (Inr (prev, r)))"

text \<open>
  One pass of the \<^verbatim>\<open>for i in range(args.max_length)\<close> body: \<open>Returns None\<close> is the
  \<^verbatim>\<open>break\<close>, \<open>Returns (Some t)\<close> the token appended.  The division by the temperature
  has no check: what a temperature of zero gives is what \<open>div_float\<close> and the operations
  after it give.  \<^verbatim>\<open>torch.topk(probs, 1)\<close> raises on an empty tensor.
\<close>

definition decode_step ::
  "('r, 't) env \<Rightarrow> utterance list \<Rightarrow> utterance list \<Rightarrow> args \<Rightarrow> string \<Rightarrow> special_map \<Rightarrow> token list
     \<Rightarrow> nat \<Rightarrow> utterance \<Rightarrow> 'r \<Rightarrow> (nat option, 'r) outcome" where
  "decode_step env personality history a lang special_map special_tokens_ids i
       current_output r =
     (case build_input_from_segments (special_tokens env) personality history current_output
             lang special_map True False of
        Inl e \<Rightarrow> Raises e r
      | Inr inst \<Rightarrow>
          (case top_filtering_with (torch env)
                  (div_float (torch env) (forward env inst) (temperature a))
                  (top_k a) (top_p a) (neg_inf (torch env)) (neg_inf (torch env)) of
             Inl e \<Rightarrow> Raises e r
           | Inr logits \<Rightarrow>
               let probs = F_softmax (torch env) logits
               in (case (if no_sample a
                         then (if probs = [] then Inl RuntimeError
                               else Inr (snd (hd (torch_topk (torch env) probs 1)), r))
                         else multinomial env r probs) of
                     Inl e \<Rightarrow> Raises e r
                   | Inr (prev, r1) \<Rightarrow>
                       (case (if int i < min_length a \<and> int prev \<in> set special_tokens_ids
                              then resample env probs special_tokens_ids prev r1
                              else Some (Inr (prev, r1))) of
                          None \<Rightarrow> Diverges
                        | Some (Inl (e, r2)) \<Rightarrow> Raises e r2
                        | Some (Inr (prev', r2)) \<Rightarrow>
                            if int prev' \<in> set special_tokens_ids then Returns None r2
                            else Returns (Some prev') r2))))"

fun decode_loop ::
  "('r, 't) env \<Rightarrow> utterance list \<Rightarrow> utterance list \<Rightarrow> args \<Rightarrow> string \<Rightarrow> special_map \<Rightarrow> token list
     \<Rightarrow> nat list \<Rightarrow> utterance \<Rightarrow> 'r \<Rightarrow> (utterance, 'r) outcome" where
  "decode_loop env personality history a lang special_map ids [] current_output r =
     Returns current_output r"
| "decode_loop env personality history a lang special_map ids (i # is) current_output r =
     (case decode_step env personality history a lang special_map ids i current_output r of
        Diverges \<Rightarrow> Diverges
      | Raises e r' \<Rightarrow> Raises e r'
      | Returns None r' \<Rightarrow> Returns current_output r'
      | Returns (Some prev) r' \<Rightarrow>
          decode_loop env personality history a lang special_map ids is
            (current_output @ [int prev]) r')"

text \<open>\<^verbatim>\<open>range(args.max_length)\<close> is \<open>[0..<nat (max_length a)]\<close>, empty for a negative flag.\<close>

definition sample_sequence ::
  "('r, 't) env \<Rightarrow> utterance list \<Rightarrow> utterance list \<Rightarrow> args \<Rightarrow> string \<Rightarrow> special_map
     \<Rightarrow> utterance option \<Rightarrow> 'r \<Rightarrow> (utterance, 'r) outcome" where
  "sample_sequence env personality history a lang special_map current_output r =
     (case lookup_all special_map (special_tokens env) of
        Inl e \<Rightarrow> Raises e r
      | Inr special_tokens_ids \<Rightarrow>
          decode_loop env personality history a lang special_map special_tokens_ids
            [0..<nat (max_length a)]
            (case current_output of None \<Rightarrow> [] | Some out \<Rightarrow> out) r)"

section \<open>The console, the transcript files and the random generators\<close>

record entry =
  speaker :: string
  text_of :: string

text \<open>
  The state outside the script: the lines still to be read from standard input, what was
  written to standard output (one element per \<^verbatim>\<open>print\<close> or prompt), the transcript
  files (a file is the list of its lines, and a line written by
  \<^verbatim>\<open>json.dump(self_conversations, outfile)\<close> is the list under its key \<^verbatim>\<open>dialog\<close>), and
  the state of the random generators.  Strings are byte strings: a text outside ASCII is
  its UTF-8 encoding.
\<close>

record 'r world =
  stdin :: "string list"
  stdout :: "string list"
  files :: "string \<Rightarrow> entry list list"
  rng :: "'r"

definition py_print :: "string \<Rightarrow> 'r world \<Rightarrow> 'r world" where
  "py_print s w = w\<lparr>stdout := stdout w @ [s]\<rparr>"

text \<open>\<^verbatim>\<open>input(prompt)\<close> writes the prompt and reads a line; at the end of input it raises.\<close>

definition py_input :: "string \<Rightarrow> 'r world \<Rightarrow> (string, 'r world) outcome" where
  "py_input prompt w =
     (case stdin w of
        [] \<Rightarrow> Raises EOFError (py_print prompt w)
      | l # ls \<Rightarrow> Returns l ((py_print prompt w)\<lparr>stdin := ls\<rparr>))"

definition random_choice :: "('r, 't) env \<Rightarrow> 'a list \<Rightarrow> 'r world \<Rightarrow> ('a, 'r world) outcome" where
  "random_choice env xs w =
     (if xs = [] then Raises IndexError w
      else (case random_index env (rng w) (length xs) of
              (i, r) \<Rightarrow> Returns (xs ! (i mod length xs)) (w\<lparr>rng := r\<rparr>)))"

definition LANG_MAP :: "(string \<times> string) list" where
  "LANG_MAP =
     [(''<en>'', ''En''), (''<fr>'', ''Fr''), (''<it>'', ''It''), (''<id>'', ''Id''),
      (''<jp>'', ''Jp''), (''<ko>'', ''Ko''), (''<zh>'', ''Zh'')]"

definition languages :: "string list" where
  "languages = [''en'', ''fr'', ''it'', ''id'', ''jp'', ''ko'', ''zh'']"

definition language_prompt :: string where
  "language_prompt = ''choose one language from : en, fr, it, id, jp, ko, zh'' @ [CHR 0x0A]"

definition starters :: "(string \<times> string list) list" where
  "starters =
     [(''<en>'',
        [''hello, how are you doing today?'',
         ''hi, how are you?'',
         ''hello , what are you doing ?'']),
      (''<zh>'',
        [map char_of [228, 189, 160, 229, 165, 189, 239, 188, 140, 228, 187, 138, 229, 164, 169, 229, 156, 168, 229, 129, 154, 228, 187, 128, 228, 185, 136, 239, 188, 159 :: nat],
         map char_of [229, 151, 168, 239, 188, 140, 228, 189, 160, 229, 165, 189, 229, 144, 151, 239, 188, 159 :: nat],
         map char_of [228, 189, 160, 229, 165, 189, 239, 188, 140, 228, 189, 160, 228, 187, 138, 229, 164, 169, 230, 128, 142, 228, 185, 136, 230, 160, 183, 32, 239, 188, 159 :: nat]]),
      (''<it>'',
        [''Ciao, come va oggi?'',
         ''Ciao, come stai?'',
         ''Ciao, cosa stai facendo ?'']),
      (''<jp>'',
        [map char_of [227, 129, 147, 227, 130, 147, 227, 129, 171, 227, 129, 161, 227, 129, 175, 227, 128, 129, 228, 187, 138, 230, 151, 165, 227, 129, 175, 227, 129, 169, 227, 129, 134, 227, 129, 167, 227, 129, 153, 227, 129, 139, 239, 188, 159 :: nat],
         map char_of [227, 129, 147, 227, 130, 147, 227, 129, 171, 227, 129, 161, 227, 129, 175, 227, 128, 129, 229, 133, 131, 230, 176, 151, 227, 129, 167, 227, 129, 153, 227, 129, 139, 239, 188, 159 :: nat],
         map char_of [227, 130, 132, 227, 129, 130, 227, 128, 129, 229, 133, 131, 230, 176, 151, 32, 239, 188, 159 :: nat]]),
      (''<ko>'',
        [map char_of [236, 149, 136, 235, 133, 149, 44, 32, 236, 152, 164, 235, 138, 152, 32, 236, 150, 180, 235, 150, 187, 234, 178, 140, 32, 236, 167, 128, 235, 130, 180, 235, 139, 136, 63 :: nat],
         map char_of [236, 149, 136, 235, 133, 149, 237, 149, 152, 236, 132, 184, 236, 154, 148, 63 :: nat],
         map char_of [236, 149, 136, 235, 133, 149, 44, 32, 235, 132, 136, 235, 138, 148, 32, 235, 172, 180, 236, 151, 135, 236, 157, 132, 32, 237, 149, 152, 234, 179, 160, 32, 236, 158, 136, 235, 139, 136, 63 :: nat]]),
      (''<id>'',
        [''Hai apa kabarmu hari ini?'',
         ''Hai apa kabar?'',
         ''Halo apa yang kamu lakukan ?'']),
      (''<fr>'',
        [map char_of [66, 111, 110, 106, 111, 117, 114, 32, 99, 111, 109, 109, 101, 110, 116, 32, 97, 108, 108, 101, 122, 45, 118, 111, 117, 115, 32, 97, 117, 106, 111, 117, 114, 100, 39, 104, 117, 105, 63 :: nat],
         ''salut comment ca va?'',
         ''salut que fais tu ?''])]"

text \<open>
  \<^verbatim>\<open>"".join(out_text.split())\<close> removes every run of white space.  On the UTF-8 bytes
  these are the ASCII white space characters and the encodings of U+0085, U+00A0, U+1680,
  U+2000 to U+200A, U+2028, U+2029, U+202F, U+205F and U+3000.
\<close>

definition utf8_space2 :: "char \<Rightarrow> char \<Rightarrow> bool" where
  "utf8_space2 a b =
     ((of_char a :: nat) = 194 \<and> ((of_char b :: nat) = 133 \<or> (of_char b :: nat) = 160))"

definition utf8_space3 :: "char \<Rightarrow> char \<Rightarrow> char \<Rightarrow> bool" where
  "utf8_space3 a b c =
     (((of_char a :: nat) = 225 \<and> (of_char b :: nat) = 154 \<and> (of_char c :: nat) = 128) \<or>
      ((of_char a :: nat) = 226 \<and> (of_char b :: nat) = 128 \<and>
         ((128 \<le> (of_char c :: nat) \<and> (of_char c :: nat) \<le> 138) \<or>
          (of_char c :: nat) = 168 \<or> (of_char c :: nat) = 169 \<or> (of_char c :: nat) = 175)) \<or>
      ((of_char a :: nat) = 226 \<and> (of_char b :: nat) = 129 \<and> (of_char c :: nat) = 159) \<or>
      ((of_char a :: nat) = 227 \<and> (of_char b :: nat) = 128 \<and> (of_char c :: nat) = 128))"

fun join_split :: "string \<Rightarrow> string" where
  "join_split (a # b # c # cs) =
     (if utf8_space3 a b c then join_split cs
      else if utf8_space2 a b then join_split (c # cs)
      else if is_ascii_space a then join_split (b # c # cs)
      else a # join_split (b # c # cs))"
| "join_split [a, b] =
     (if utf8_space2 a b then []
      else if is_ascii_space a then join_split [b]
      else a # join_split [b])"
| "join_split [a] = (if is_ascii_space a then [] else [a])"
| "join_split [] = []"

section \<open>run\<close>

text \<open>The two console loops of \<^verbatim>\<open>run\<close>: each asks again until the entry is accepted.\<close>

function language_loop :: "string \<Rightarrow> 'r world \<Rightarrow> (string, 'r world) outcome" where
  "language_loop lang w =
     (if lang \<in> set languages then Returns lang w
      else (case py_input language_prompt (py_print ''Choose correct language!'' w) of
              Returns l w' \<Rightarrow> language_loop l w'
            | Raises e w' \<Rightarrow> Raises e w'
            | Diverges \<Rightarrow> Diverges))"
  by pat_completeness auto
termination
  by (relation "measure (\<lambda>(lang, w). length (stdin w))")
    (auto simp: py_input_def py_print_def split: list.splits)

definition choose_language :: "'r world \<Rightarrow> (string, 'r world) outcome" where
  "choose_language w =
     (case py_input language_prompt w of
        Returns lang w' \<Rightarrow>
          (case language_loop lang w' of
             Returns l w'' \<Rightarrow> Returns (''<'' @ l @ ''>'') w''
           | Raises e w'' \<Rightarrow> Raises e w''
           | Diverges \<Rightarrow> Diverges)
      | Raises e w' \<Rightarrow> Raises e w'
      | Diverges \<Rightarrow> Diverges)"

function prompt_loop :: "string \<Rightarrow> 'r world \<Rightarrow> (string, 'r world) outcome" where
  "prompt_loop raw_text w =
     (if raw_text \<noteq> [] then Returns raw_text w
      else (case py_input ''>>> '' (py_print ''Prompt should not be empty!'' w) of
              Returns l w' \<Rightarrow> prompt_loop l w'
            | Raises e w' \<Rightarrow> Raises e w'
            | Diverges \<Rightarrow> Diverges))"
  by pat_completeness auto
termination
  by (relation "measure (\<lambda>(raw_text, w). length (stdin w))")
    (auto simp: py_input_def py_print_def split: list.splits)

definition read_prompt :: "'r world \<Rightarrow> (string, 'r world) outcome" where
  "read_prompt w =
     (case py_input ''>>> '' w of
        Returns raw_text w' \<Rightarrow> prompt_loop raw_text w'
      | Raises e w' \<Rightarrow> Raises e w'
      | Diverges \<Rightarrow> Diverges)"

text \<open>What is printed for a reply: Japanese and Chinese lose their white space.\<close>

definition shown_text :: "string \<Rightarrow> string \<Rightarrow> string" where
  "shown_text lang out_text =
     (if lang \<in> set [''<jp>'', ''<zh>''] then join_split out_text else out_text)"

text \<open>
  A call of \<open>sample_sequence\<close> from \<^verbatim>\<open>run\<close>: always with \<^verbatim>\<open>current_output=None\<close>, on
  the generator state of the world.
\<close>

definition generate ::
  "('r, 't) env \<Rightarrow> utterance list \<Rightarrow> utterance list \<Rightarrow> args \<Rightarrow> string \<Rightarrow> special_map \<Rightarrow> 'r world
     \<Rightarrow> (utterance, 'r world) outcome" where
  "generate env personality history a lang special_map w =
     (case sample_sequence env personality history a lang special_map None (rng w) of
        Returns out_ids r \<Rightarrow> Returns out_ids (w\<lparr>rng := r\<rparr>)
      | Raises e r \<Rightarrow> Raises e (w\<lparr>rng := r\<rparr>)
      | Diverges \<Rightarrow> Diverges)"

subsection \<open>Self-play\<close>

text \<open>
  One pass of \<^verbatim>\<open>for i in range(13)\<close>.  It carries the history and the dialogue of the
  conversation.
\<close>

definition self_play_turn ::
  "('r, 't) env \<Rightarrow> args \<Rightarrow> string \<Rightarrow> special_map \<Rightarrow> utterance list \<Rightarrow> utterance list \<Rightarrow> nat
     \<Rightarrow> utterance list \<times> entry list \<Rightarrow> 'r world
     \<Rightarrow> (utterance list \<times> entry list, 'r world) outcome" where
  "self_play_turn env a lang special_map personality_1 personality_2 i hd_pair w =
     (case hd_pair of
        (history, dialog) \<Rightarrow>
          (case generate env (if i mod 2 \<noteq> 0 then personality_1 else personality_2)
                  history a lang special_map w of
             Diverges \<Rightarrow> Diverges
           | Raises e w' \<Rightarrow> Raises e w'
           | Returns out_ids w' \<Rightarrow>
               let history1 = history @ [out_ids];
                   history2 = py_slice_from (- max_turns a) history1;
                   out_text = decode env out_ids;
                   shown = shown_text lang out_text
               in Returns
                    (history2,
                     dialog @ [\<lparr> speaker = (if i mod 2 \<noteq> 0 then ''human_evaluator'' else ''model''),
                                text_of = shown \<rparr>])
                    (py_print shown w')))"

fun self_play_turns ::
  "('r, 't) env \<Rightarrow> args \<Rightarrow> string \<Rightarrow> special_map \<Rightarrow> utterance list \<Rightarrow> utterance list \<Rightarrow> nat list
     \<Rightarrow> utterance list \<times> entry list \<Rightarrow> 'r world
     \<Rightarrow> (utterance list \<times> entry list, 'r world) outcome" where
  "self_play_turns env a lang special_map personality_1 personality_2 [] hd_pair w =
     Returns hd_pair w"
| "self_play_turns env a lang special_map personality_1 personality_2 (i # is) hd_pair w =
     (case self_play_turn env a lang special_map personality_1 personality_2 i hd_pair w of
        Diverges \<Rightarrow> Diverges
      | Raises e w' \<Rightarrow> Raises e w'
      | Returns hd_pair' w' \<Rightarrow>
          self_play_turns env a lang special_map personality_1 personality_2 is hd_pair' w')"

text \<open>
  For the statements about transcripts: the replies that the turns \<open>is\<close> generate from a
  history and a state (each turn sees the history and the generator state its
  predecessors left), and the dialogue entry of a reply.
\<close>

fun generated_turns ::
  "('r, 't) env \<Rightarrow> args \<Rightarrow> string \<Rightarrow> special_map \<Rightarrow> utterance list \<Rightarrow> utterance list \<Rightarrow> nat list
     \<Rightarrow> utterance list \<Rightarrow> 'r world \<Rightarrow> utterance list" where
  "generated_turns env a lang special_map personality_1 personality_2 [] history w = []"
| "generated_turns env a lang special_map personality_1 personality_2 (i # is) history w =
     (case generate env (if i mod 2 \<noteq> 0 then personality_1 else personality_2)
             history a lang special_map w of
        Returns out_ids w' \<Rightarrow>
          out_ids #
          generated_turns env a lang special_map personality_1 personality_2 is
            (py_slice_from (- max_turns a) (history @ [out_ids]))
            (py_print (shown_text lang (decode env out_ids)) w')
      | Raises e w' \<Rightarrow> []
      | Diverges \<Rightarrow> [])"

definition turn_entry :: "('r, 't) env \<Rightarrow> string \<Rightarrow> nat \<times> utterance \<Rightarrow> entry" where
  "turn_entry env lang p =
     \<lparr> speaker = (if fst p mod 2 \<noteq> 0 then ''human_evaluator'' else ''model''),
       text_of = shown_text lang (decode env (snd p)) \<rparr>"

text \<open>
  The head of a conversation: the separator, the two personas, the starter, which is
  printed, opens the dialogue and is appended to the history as it stands.
\<close>

definition separator :: string where
  "separator = replicate 51 (CHR ''='')"

definition begin_conversation ::
  "('r, 't) env \<Rightarrow> string \<Rightarrow> utterance list list \<Rightarrow> utterance list \<Rightarrow> 'r world
     \<Rightarrow> ((utterance list \<times> utterance list) \<times> utterance list \<times> entry list, 'r world) outcome" where
  "begin_conversation env lang personalities history w =
     (case random_choice env personalities (py_print separator w) of
        Diverges \<Rightarrow> Diverges
      | Raises e w1 \<Rightarrow> Raises e w1
      | Returns personality_1 w1 \<Rightarrow>
          (case random_choice env personalities w1 of
             Diverges \<Rightarrow> Diverges
           | Raises e w2 \<Rightarrow> Raises e w2
           | Returns personality_2 w2 \<Rightarrow>
               (case map_of starters lang of
                  None \<Rightarrow> Raises KeyError w2
                | Some choices \<Rightarrow>
                    (case random_choice env choices w2 of
                       Diverges \<Rightarrow> Diverges
                     | Raises e w3 \<Rightarrow> Raises e w3
                     | Returns starter w3 \<Rightarrow>
                         Returns
                           ((personality_1, personality_2),
                            history @ [encode env starter],
                            [\<lparr> speaker = ''human_evaluator'', text_of = starter \<rparr>])
                           (py_print starter w3)))))"

text \<open>\<^verbatim>\<open>open(path, 'a')\<close>, \<^verbatim>\<open>json.dump\<close> and the newline: one line more in the file.\<close>

definition transcript_path :: "string \<Rightarrow> string" where
  "transcript_path lang_name = ''selfplay/'' @ ''multi_Bert2Bert_'' @ lang_name @ ''_output_new.jsonl''"

definition append_transcript ::
  "('r, 't) env \<Rightarrow> string \<Rightarrow> entry list \<Rightarrow> 'r world \<Rightarrow> (unit, 'r world) outcome" where
  "append_transcript env lang dialog w =
     (case map_of LANG_MAP lang of
        None \<Rightarrow> Raises KeyError w
      | Some lang_name \<Rightarrow>
          if can_append env (transcript_path lang_name)
          then Returns ()
                 (w\<lparr>files := (files w)(transcript_path lang_name :=
                                files w (transcript_path lang_name) @ [dialog])\<rparr>)
          else Raises OSError w)"

text \<open>One pass of \<^verbatim>\<open>for j in range(50)\<close>: it takes the history and returns it.\<close>

definition conversation ::
  "('r, 't) env \<Rightarrow> args \<Rightarrow> string \<Rightarrow> special_map \<Rightarrow> utterance list list \<Rightarrow> utterance list \<Rightarrow> 'r world
     \<Rightarrow> (utterance list, 'r world) outcome" where
  "conversation env a lang special_map personalities history w =
     (case begin_conversation env lang personalities history w of
        Diverges \<Rightarrow> Diverges
      | Raises e w1 \<Rightarrow> Raises e w1
      | Returns ((personality_1, personality_2), hd_pair) w1 \<Rightarrow>
          (case self_play_turns env a lang special_map personality_1 personality_2 [0..<13]
                  hd_pair w1 of
             Diverges \<Rightarrow> Diverges
           | Raises e w2 \<Rightarrow> Raises e w2
           | Returns (history', dialog) w2 \<Rightarrow>
               (case append_transcript env lang dialog w2 of
                  Diverges \<Rightarrow> Diverges
                | Raises e w3 \<Rightarrow> Raises e w3
                | Returns u w3 \<Rightarrow> Returns history' w3)))"

fun conversations ::
  "('r, 't) env \<Rightarrow> args \<Rightarrow> string \<Rightarrow> special_map \<Rightarrow> utterance list list \<Rightarrow> nat list
     \<Rightarrow> utterance list \<Rightarrow> 'r world \<Rightarrow> (utterance list, 'r world) outcome" where
  "conversations env a lang special_map personalities [] history w = Returns history w"
| "conversations env a lang special_map personalities (j # js) history w =
     (case conversation env a lang special_map personalities history w of
        Diverges \<Rightarrow> Diverges
      | Raises e w' \<Rightarrow> Raises e w'
      | Returns history' w' \<Rightarrow>
          conversations env a lang special_map personalities js history' w')"


definition self_play_mode ::
  "('r, 't) env \<Rightarrow> args \<Rightarrow> string \<Rightarrow> special_map \<Rightarrow> utterance list list \<Rightarrow> utterance list \<Rightarrow> 'r world
     \<Rightarrow> (utterance list, 'r world) outcome" where
  "self_play_mode env a lang special_map personalities history w =
     conversations env a lang special_map personalities [0..<50] history w"

subsection \<open>The interactive loop\<close>

text \<open>One pass of \<^verbatim>\<open>while True\<close>: a prompt, a reply, the history cut to its window.\<close>

definition interactive_turn ::
  "('r, 't) env \<Rightarrow> args \<Rightarrow> string \<Rightarrow> special_map \<Rightarrow> utterance list \<Rightarrow> utterance list \<Rightarrow> 'r world
     \<Rightarrow> (utterance list, 'r world) outcome" where
  "interactive_turn env a lang special_map personality history w =
     (case read_prompt w of
        Diverges \<Rightarrow> Diverges
      | Raises e w1 \<Rightarrow> Raises e w1
      | Returns raw_text w1 \<Rightarrow>
          (case generate env personality (history @ [encode env raw_text]) a lang special_map w1 of
             Diverges \<Rightarrow> Diverges
           | Raises e w2 \<Rightarrow> Raises e w2
           | Returns out_ids w2 \<Rightarrow>
               let history1 = history @ [encode env raw_text] @ [out_ids];
                   history2 = py_slice_from (- max_turns a) history1;
                   out_text = decode env out_ids
               in Returns history2 (py_print (shown_text lang out_text) w2)))"

declare language_loop.simps [simp del] prompt_loop.simps [simp del]

lemma prompt_loop_accept: "raw_text \<noteq> [] \<Longrightarrow> prompt_loop raw_text w = Returns raw_text w"
  by (subst prompt_loop.simps) simp

lemma prompt_loop_again:
  "prompt_loop [] w =
     (case py_input ''>>> '' (py_print ''Prompt should not be empty!'' w) of
        Returns l w' \<Rightarrow> prompt_loop l w'
      | Raises e w' \<Rightarrow> Raises e w'
      | Diverges \<Rightarrow> Diverges)"
  by (subst prompt_loop.simps) simp

lemma language_loop_accept: "lang \<in> set languages \<Longrightarrow> language_loop lang w = Returns lang w"
  by (subst language_loop.simps) simp

lemma language_loop_again:
  "lang \<notin> set languages \<Longrightarrow> language_loop lang w =
     (case py_input language_prompt (py_print ''Choose correct language!'' w) of
        Returns l w' \<Rightarrow> language_loop l w'
      | Raises e w' \<Rightarrow> Raises e w'
      | Diverges \<Rightarrow> Diverges)"
  by (subst language_loop.simps) simp

lemma prompt_loop_stdin:
  "prompt_loop raw_text w = Returns t w' \<Longrightarrow> length (stdin w') \<le> length (stdin w)"
proof (induction raw_text w rule: prompt_loop.induct)
  case (1 raw_text w)
  show ?case
  proof (cases "raw_text \<noteq> []")
    case True
    with "1.prems" show ?thesis by (simp add: prompt_loop_accept)
  next
    case False
    then obtain l w1 where
      inp: "py_input ''>>> '' (py_print ''Prompt should not be empty!'' w) = Returns l w1"
      and rec: "prompt_loop l w1 = Returns t w'"
      using "1.prems" by (auto simp: prompt_loop_again split: outcome.splits)
    from inp have "length (stdin w1) \<le> length (stdin w)"
      by (auto simp: py_input_def py_print_def split: list.splits)
    moreover from "1.IH" [OF _ inp rec] False have "length (stdin w') \<le> length (stdin w1)"
      by simp
    ultimately show ?thesis by simp
  qed
qed

lemma interactive_turn_stdin:
  "interactive_turn env a lang special_map personality history w = Returns h w'
     \<Longrightarrow> length (stdin w') < length (stdin w)"
  by (auto simp: interactive_turn_def read_prompt_def generate_def py_input_def py_print_def
        Let_def split: outcome.splits list.splits dest!: prompt_loop_stdin)

text \<open>
  \<^verbatim>\<open>while True\<close> has no exit: the loop ends only with an exception, which on a finite
  input is at the latest the \<^verbatim>\<open>EOFError\<close> of \<^verbatim>\<open>input\<close>.
\<close>

function interactive_loop ::
  "('r, 't) env \<Rightarrow> args \<Rightarrow> string \<Rightarrow> special_map \<Rightarrow> utterance list \<Rightarrow> utterance list \<Rightarrow> 'r world
     \<Rightarrow> (unit, 'r world) outcome" where
  "interactive_loop env a lang special_map personality history w =
     (case interactive_turn env a lang special_map personality history w of
        Diverges \<Rightarrow> Diverges
      | Raises e w' \<Rightarrow> Raises e w'
      | Returns history' w' \<Rightarrow>
          interactive_loop env a lang special_map personality history' w')"
  by pat_completeness auto
termination
  by (relation "measure (\<lambda>(env, a, lang, special_map, personality, history, w). length (stdin w))")
    (auto dest: interactive_turn_stdin)

declare interactive_loop.simps [simp del]

definition interactive_mode ::
  "('r, 't) env \<Rightarrow> args \<Rightarrow> string \<Rightarrow> special_map \<Rightarrow> utterance list list \<Rightarrow> utterance list \<Rightarrow> 'r world
     \<Rightarrow> (unit, 'r world) outcome" where
  "interactive_mode env a lang special_map personalities history w =
     (case random_choice env personalities w of
        Diverges \<Rightarrow> Diverges
      | Raises e w1 \<Rightarrow> Raises e w1
      | Returns personality w1 \<Rightarrow>
          interactive_loop env a lang special_map personality history w1)"

subsection \<open>Loading the checkpoint, and the whole of run\<close>

text \<open>
  The statements between the seeds and the language prompt, in their order.  None of
  them stands in a \<^verbatim>\<open>try\<close>: the script has no exception handler at all.
\<close>

definition load_checkpoint :: "('r, 't) env \<Rightarrow> args \<Rightarrow> py_error + special_map" where
  "load_checkpoint env a =
     (case tokenizer_from_pretrained env (model_checkpoint a) of
        Some e \<Rightarrow> Inl e
      | None \<Rightarrow>
     (case config_from_pretrained env (model_checkpoint a) of
        Some e \<Rightarrow> Inl e
      | None \<Rightarrow>
     (case model_from_pretrained env (model_checkpoint a) of
        Some e \<Rightarrow> Inl e
      | None \<Rightarrow>
     (case open_read env (model_checkpoint a @ ''/added_tokens.json'') of
        Inl e \<Rightarrow> Inl e
      | Inr content \<Rightarrow>
     (case json_load env content of
        Inl e \<Rightarrow> Inl e
      | Inr special_map \<Rightarrow>
     (case load_state_dict env (model_checkpoint a @ ''/pytorch_model.bin'') of
        Some e \<Rightarrow> Inl e
      | None \<Rightarrow>
     (case model_to env (device a) of
        Some e \<Rightarrow> Inl e
      | None \<Rightarrow> Inr special_map)))))))"

definition personalities_of ::
  "('r, 't) env \<Rightarrow> args \<Rightarrow> string \<Rightarrow> py_error + utterance list list" where
  "personalities_of env a lang =
     (case get_dataset env (dataset_path a) (dataset_cache a) of
        Inl e \<Rightarrow> Inl e
      | Inr test_split \<Rightarrow>
          (case map_of LANG_MAP lang of
             None \<Rightarrow> Inl KeyError
           | Some lang_name \<Rightarrow>
               (case test_split lang_name of
                  None \<Rightarrow> Inl KeyError
                | Some personalities \<Rightarrow> Inr personalities)))"

text \<open>\<^verbatim>\<open>if args.seed != 0\<close>: the three generators are seeded.\<close>

definition seed_generators :: "('r, 't) env \<Rightarrow> args \<Rightarrow> 'r world \<Rightarrow> 'r world" where
  "seed_generators env a w =
     (if seed a \<noteq> 0 then w\<lparr>rng := reseed env (seed a) (rng w)\<rparr> else w)"

definition run_with_args :: "('r, 't) env \<Rightarrow> args \<Rightarrow> 'r world \<Rightarrow> (unit, 'r world) outcome" where
  "run_with_args env a w =
     (let w0 = seed_generators env a w
      in case load_checkpoint env a of
           Inl e \<Rightarrow> Raises e w0
         | Inr special_map \<Rightarrow>
             (case choose_language w0 of
                Diverges \<Rightarrow> Diverges
              | Raises e w1 \<Rightarrow> Raises e w1
              | Returns lang w1 \<Rightarrow>
                  (case personalities_of env a lang of
                     Inl e \<Rightarrow> Raises e w1
                   | Inr personalities \<Rightarrow>
                       if self_play a then
                         (case self_play_mode env a lang special_map personalities [] w1 of
                            Diverges \<Rightarrow> Diverges
                          | Raises e w2 \<Rightarrow> Raises e w2
                          | Returns history w2 \<Rightarrow> Returns () w2)
                       else interactive_mode env a lang special_map personalities [] w1)))"

definition run :: "('r, 't) env \<Rightarrow> string list \<Rightarrow> 'r world \<Rightarrow> (unit, 'r world) outcome" where
  "run env argv w =
     (case parse_args (py_float env) (cuda_available env) argv of
        Inl e \<Rightarrow> Raises e w
      | Inr a \<Rightarrow> run_with_args env a w)"

section \<open>A small environment to run the model on\<close>

text \<open>
  A vocabulary of two ordinary tokens with equal logits, exact arithmetic, six special
  tokens, a generator
  that counts its draws, one persona for English, and loaders that succeed.
\<close>

definition demo_special_tokens :: "string list" where
  "demo_special_tokens =
     [''<bos>'', ''<eos>'', ''<persona>'', ''<speaker1>'', ''<speaker2>'', ''<en>'']"

definition demo_special_map :: special_map where
  "demo_special_map =
     map_of [(''<bos>'', 100), (''<eos>'', 101), (''<persona>'', 102),
             (''<speaker1>'', 103), (''<speaker2>'', 104), (''<en>'', 105)]"

definition demo_env :: "(nat, logit) env" where
  "demo_env =
     \<lparr> special_tokens = demo_special_tokens,
       torch = exact_torch,
       forward = (\<lambda>inst. [Fin 0, Fin 0]),
       multinomial = (\<lambda>r ps. Inr (r mod 2, Suc r)),
       random_index = (\<lambda>r n. (r, Suc r)),
       reseed = (\<lambda>s r. nat s),
       encode = map (\<lambda>c. int (of_char c)),
       decode = map (\<lambda>t. if t = 0 then CHR ''a'' else CHR ''b''),
       py_float = (\<lambda>s. None),
       cuda_available = False,
       tokenizer_from_pretrained = (\<lambda>path. None),
       config_from_pretrained = (\<lambda>path. None),
       model_from_pretrained = (\<lambda>path. None),
       open_read = (\<lambda>path. Inr []),
       json_load = (\<lambda>content. Inr demo_special_map),
       load_state_dict = (\<lambda>path. None),
       model_to = (\<lambda>dev. None),
       get_dataset = (\<lambda>path cache. Inr (map_of [(''En'', [[[1, 2]]])])),
       can_append = (\<lambda>path. True) \<rparr>"

definition demo_args :: args where
  "demo_args = (default_args False)\<lparr>no_sample := True, max_length := 2\<rparr>"

definition demo_world :: "nat world" where
  "demo_world = \<lparr> stdin = [''xx'', ''en'', [], ''hi''], stdout = [], files = (\<lambda>path. []), rng = 0 \<rparr>"

section \<open>Running the small environment\<close>

lemma demo_lookup: "lookup_all demo_special_map demo_special_tokens = Inr [100, 101, 102, 103, 104, 105]"
  by (simp add: demo_special_map_def demo_special_tokens_def)

lemma demo_tf: "top_filtering [Fin 0, Fin 0] 0 (9/10) NegInf NegInf = Inr [Fin 0, Fin 0]"
  by (simp add: top_filtering_def top_p_filter_def torch_sort_desc_def softmax_def expl_def
      cumsum_def mask_fill_def index_fill_def)

lemma demo_torch:
  "torch_sort exact_torch [Fin 0, Fin 0] = [(Fin 0, 0), (Fin 0, 1)]"
  "F_softmax exact_torch [Fin 0, Fin 0] = [Fin (1/2), Fin (1/2)]"
  "torch_cumsum exact_torch [Fin (1/2), Fin (1/2)] = [Fin (1/2), Fin 1]"
  "snd (hd (torch_topk exact_torch [Fin (1/2), Fin (1/2)] (Suc 0))) = 0"
  "div_float exact_torch [Fin 0, Fin 0] (7/10) = [Fin 0, Fin 0]"
  "neg_inf exact_torch = NegInf"
  "lt exact_torch x NegInf = False"
  "gt_float exact_torch (Fin c) q = (q < c)"
  by (simp_all add: exact_torch_def exact_softmax_def exact_cumsum_def softmax_def expl_def
      torch_sort_desc_def cumsum_def del: not_None_eq)

lemma demo_tf_with:
  "top_filtering_with exact_torch [Fin 0, Fin 0] 0 (9/10) NegInf NegInf = Inr [Fin 0, Fin 0]"
proof -
  have "top_p_filter_with exact_torch [Fin 0, Fin 0] (9/10) NegInf = Inr [Fin 0, Fin 0]"
    unfolding top_p_filter_with_def Let_def demo_torch list.map fst_conv snd_conv
    by (simp add: index_fill_def)
  then show ?thesis
    by (simp add: top_filtering_with_def mask_fill_def demo_torch)
qed

lemma demo_step_any:
  assumes "special_tokens env = demo_special_tokens" and "torch env = exact_torch"
    and "\<And>inst. forward env inst = [Fin 0, Fin 0]"
    and "no_sample a" and "top_k a = 0" and "top_p a = 9/10" and "temperature a = 7/10"
  shows "decode_step env p h a ''<en>'' demo_special_map [100, 101, 102, 103, 104, 105] i out r
     = Returns (Some 0) r"
proof -
  have b: "\<exists>inst. build_input_from_segments demo_special_tokens p h out ''<en>''
      demo_special_map True False = Inr inst"
    by (simp add: build_input_from_segments_def demo_special_map_def
        demo_special_tokens_def Let_def)
  then obtain inst where inst: "build_input_from_segments demo_special_tokens p h out ''<en>''
      demo_special_map True False = Inr inst" ..
  show ?thesis
    by (simp add: decode_step_def inst assms demo_torch demo_tf_with Let_def)
qed

lemma demo_sample_any:
  assumes "special_tokens env = demo_special_tokens" and "torch env = exact_torch"
    and "\<And>inst. forward env inst = [Fin 0, Fin 0]"
    and "no_sample a" and "top_k a = 0" and "top_p a = 9/10" and "temperature a = 7/10"
    and "max_length a = 2"
  shows "sample_sequence env p h a ''<en>'' demo_special_map None r = Returns [0, 0] r"
proof -
  have r: "[0..<nat (max_length a)] = [0, 1]"
    by (simp add: assms upt_rec)
  show ?thesis
    unfolding sample_sequence_def assms(1) demo_lookup r
    by (simp add: demo_step_any [OF assms(1-7)])
qed

lemma demo_sample:
  "sample_sequence demo_env p h demo_args ''<en>'' demo_special_map None r = Returns [0, 0] r"
  by (rule demo_sample_any) (simp_all add: demo_env_def demo_args_def default_args_def)

lemma demo_sample_turns:
  "sample_sequence demo_env p h (demo_args\<lparr>max_turns := m\<rparr>) ''<en>'' demo_special_map None r
     = Returns [0, 0] r"
  by (rule demo_sample_any) (simp_all add: demo_env_def demo_args_def default_args_def)


section \<open>The shape of the model input\<close>

lemma length_speaker_ids:
  "length (concat (map (\<lambda>(i, s). map (\<lambda>_. f i) s) (enumerate n (map (\<lambda>(i, s). g i # s) (enumerate n hs)))))
     = length (concat (map (\<lambda>(i, s). g i # s) (enumerate n hs)))"
  by (induction hs arbitrary: n) auto

lemma set_speaker_seq:
  "set (concat (map (\<lambda>(i, s). speaker_of a b i # s) (enumerate n hs)))
     \<subseteq> {a, b} \<union> \<Union> (set ` set hs)"
  by (auto simp: speaker_of_def enumerate_eq_zip dest: set_zip_rightD)

lemma set_personality:
  "set (concat (map (\<lambda>sent. p # sent) persona)) \<subseteq> {p} \<union> \<Union> (set ` set persona)"
  by (induction persona) auto

text \<open>
  Claim C9.  Whenever \<open>build_input_from_segments\<close> returns, \<open>input_ids\<close> and
  \<open>token_type_ids\<close> have the same length; \<open>input_ids\<close> is the persona (each sentence
  after the persona token) followed by the history (each utterance after its speaker
  token), so it holds persona, history and speaker tokens only; the reply occurs in
  \<open>lm_labels\<close> alone, and another reply changes neither \<open>input_ids\<close> nor \<open>token_type_ids\<close>.
\<close>

theorem build_input_from_segments_shape:
  assumes "build_input_from_segments ST persona history reply lang sm lab eos = Inr inst"
  shows "length (input_ids inst) = length (token_type_ids inst) \<and>
    (\<exists>vs. lookup_all sm (take 5 ST) = Inr vs \<and> length vs = 5 \<and>
       input_ids inst =
         concat (map (\<lambda>sent. vs ! 2 # sent) persona) @
         concat (map (\<lambda>(i, s). speaker_of (vs ! 3) (vs ! 4) i # s) (enumerate 0 history)) \<and>
       set (input_ids inst) \<subseteq>
         {vs ! 2, vs ! 3, vs ! 4} \<union> \<Union> (set ` set persona) \<union> \<Union> (set ` set history) \<and>
       lm_labels inst =
         (if lab then vs ! 0 # reply @ (if eos then [vs ! 1] else [])
          else replicate (length (vs ! 0 # reply @ (if eos then [vs ! 1] else []))) (- 1))) \<and>
    (\<forall>reply' lab' eos'. \<exists>inst'.
       build_input_from_segments ST persona history reply' lang sm lab' eos' = Inr inst' \<and>
       input_ids inst' = input_ids inst \<and> token_type_ids inst' = token_type_ids inst)"
proof -
  from assms obtain vs lt where vs: "lookup_all sm (take 5 ST) = Inr vs" "length vs = 5"
    and lt: "sm lang = Some lt"
    by (auto simp: build_input_from_segments_def split: sum.splits if_splits option.splits)
  let ?pers = "concat (map (\<lambda>sent. vs ! 2 # sent) persona)"
  let ?hist = "concat (map (\<lambda>(i, s). speaker_of (vs ! 3) (vs ! 4) i # s) (enumerate 0 history))"
  have ids: "input_ids inst = ?pers @ ?hist"
    using assms vs lt by (auto simp: build_input_from_segments_def Let_def)
  have tt: "length (token_type_ids inst) = length ?pers + length ?hist"
    using assms vs lt
    by (auto simp: build_input_from_segments_def Let_def length_speaker_ids
          simp del: length_concat)
  have sub: "set (input_ids inst) \<subseteq>
      {vs ! 2, vs ! 3, vs ! 4} \<union> \<Union> (set ` set persona) \<union> \<Union> (set ` set history)"
    using set_personality [of "vs ! 2" persona] set_speaker_seq [of "vs ! 3" "vs ! 4" 0 history]
    unfolding ids by (simp only: set_append) blast
  have lab: "lm_labels inst =
         (if lab then vs ! 0 # reply @ (if eos then [vs ! 1] else [])
          else replicate (length (vs ! 0 # reply @ (if eos then [vs ! 1] else []))) (- 1))"
    using assms vs lt by (auto simp: build_input_from_segments_def Let_def)
  have indep: "\<exists>inst'.
       build_input_from_segments ST persona history reply' lang sm lab' eos' = Inr inst' \<and>
       input_ids inst' = input_ids inst \<and> token_type_ids inst' = token_type_ids inst"
    for reply' lab' eos'
    using assms vs lt by (auto simp: build_input_from_segments_def Let_def)
  from ids tt sub lab indep vs show ?thesis by auto
qed

theorem build_input_from_segments_shape_witness:
  "build_input_from_segments demo_special_tokens [[1, 2]] [[3], [4, 5]] [6] ''<en>''
       demo_special_map True False =
     Inr \<lparr> input_ids = [102, 1, 2, 103, 3, 104, 4, 5],
           token_type_ids = [102, 102, 102, 103, 103, 104, 104, 104],
           lm_labels = [100, 6], lang_id = [105] \<rparr> \<and>
   length [102, 1, 2, 103, 3, 104, 4, 5 :: int] =
     length [102, 102, 102, 103, 103, 104, 104, 104 :: int]"
proof -
  have h: "build_input_from_segments demo_special_tokens [[1, 2]] [[3], [4, 5]] [6] ''<en>''
       demo_special_map True False =
     Inr \<lparr> input_ids = [102, 1, 2, 103, 3, 104, 4, 5],
           token_type_ids = [102, 102, 102, 103, 103, 104, 104, 104],
           lm_labels = [100, 6], lang_id = [105] \<rparr>"
    by (simp add: build_input_from_segments_def demo_special_tokens_def demo_special_map_def
        speaker_of_def Let_def)
  from build_input_from_segments_shape [OF h] h show ?thesis by simp
qed


section \<open>The length of a reply\<close>

lemma decode_loop_length:
  "decode_loop env p h a lang sm ids is cur r = Returns out r'
     \<Longrightarrow> length out \<le> length cur + length is"
proof (induction "is" arbitrary: cur r)
  case Nil
  then show ?case by simp
next
  case (Cons i "is")
  show ?case
  proof (cases "decode_step env p h a lang sm ids i cur r")
    case (Returns t r1)
    show ?thesis
    proof (cases t)
      case None
      with Returns Cons.prems show ?thesis by simp
    next
      case (Some prev)
      with Returns Cons.prems
      have "decode_loop env p h a lang sm ids is (cur @ [int prev]) r1 = Returns out r'"
        by simp
      from Cons.IH [OF this] show ?thesis by simp
    qed
  next
    case (Raises e r1)
    with Cons.prems show ?thesis by simp
  next
    case Diverges
    with Cons.prems show ?thesis by simp
  qed
qed

text \<open>
  The temperature is not examined.  A pass of greedy decoding returns whenever the input
  is built, the tensor is filtered and the token chosen is no special token, whatever
  the division by the temperature gave; a pass of sampling raises what
  \<^verbatim>\<open>torch.multinomial\<close> raises, as it does on a tensor of NaN.
\<close>

lemma decode_step_greedy:
  assumes "no_sample a"
    and "build_input_from_segments (special_tokens env) personality history out lang sm
           True False = Inr inst"
    and "top_filtering_with (torch env)
           (div_float (torch env) (forward env inst) (temperature a))
           (top_k a) (top_p a) (neg_inf (torch env)) (neg_inf (torch env)) = Inr logits"
    and "F_softmax (torch env) logits \<noteq> []"
    and "int (snd (hd (torch_topk (torch env) (F_softmax (torch env) logits) 1))) \<notin> set ids"
  shows "decode_step env personality history a lang sm ids i out r =
     Returns (Some (snd (hd (torch_topk (torch env) (F_softmax (torch env) logits) 1)))) r"
  using assms by (simp add: decode_step_def Let_def)

lemma decode_step_multinomial_raises:
  assumes "\<not> no_sample a"
    and "build_input_from_segments (special_tokens env) personality history out lang sm
           True False = Inr inst"
    and "top_filtering_with (torch env)
           (div_float (torch env) (forward env inst) (temperature a))
           (top_k a) (top_p a) (neg_inf (torch env)) (neg_inf (torch env)) = Inr logits"
    and "multinomial env r (F_softmax (torch env) logits) = Inl e"
  shows "decode_step env personality history a lang sm ids i out r = Raises e r"
  using assms by (simp add: decode_step_def Let_def)

text \<open>
  Claim C2, as amended.  A reply returned by \<open>sample_sequence\<close> called with
  \<^verbatim>\<open>current_output=None\<close> has at most \<open>max 0 max_length\<close> tokens: the loop makes at most
  that many passes and each appends at most one token.  For a negative \<open>max_length\<close> the
  reply is empty, which is more than \<open>max_length\<close> tokens.
\<close>

theorem sample_sequence_length:
  assumes "sample_sequence env personality history a lang sm None r = Returns out r'"
  shows "int (length out) \<le> max 0 (max_length a)"
proof -
  from assms obtain ids where
    "decode_loop env personality history a lang sm ids [0..<nat (max_length a)] [] r
       = Returns out r'"
    by (auto simp: sample_sequence_def split: sum.splits)
  from decode_loop_length [OF this] show ?thesis by simp
qed

theorem sample_sequence_length_witness:
  "sample_sequence demo_env [[1, 2]] [] demo_args ''<en>'' demo_special_map None 0
     = Returns [0, 0] 0 \<and>
   int (length [0, 0 :: int]) \<le> max 0 (max_length demo_args)"
  using sample_sequence_length [OF demo_sample [of "[[1, 2]]" "[]" 0]]
    demo_sample [of "[[1, 2]]" "[]" 0]
  by simp

theorem sample_sequence_negative_max_length:
  "sample_sequence demo_env [[1, 2]] [] (demo_args\<lparr>max_length := - 1\<rparr>) ''<en>''
       demo_special_map None 0 = Returns [] 0 \<and>
   \<not> int (length ([] :: int list)) \<le> max_length (demo_args\<lparr>max_length := - 1\<rparr>)"
proof -
  have st: "special_tokens demo_env = demo_special_tokens"
    by (simp add: demo_env_def)
  show ?thesis
    unfolding sample_sequence_def st demo_lookup by simp
qed

section \<open>The temperature flag\<close>

lemma py_int_07: "py_int ''0.7'' = None"
  by (simp add: py_int_def py_strip_def is_c_space_def int_digits_def is_digit_def)

lemma py_int_2: "py_int ''2'' = Some 2"
  by (simp add: py_int_def py_strip_def is_c_space_def int_digits_def is_digit_def
      digits_value_def)

text \<open>
  Claim C6.  The flag \<^verbatim>\<open>--temperature\<close> is declared \<^verbatim>\<open>type=int\<close>, so the documented
  default \<open>0.7\<close> cannot be given on the command line: parsing \<^verbatim>\<open>--temperature 0.7\<close>
  ends in the argparse error, for every \<^verbatim>\<open>float\<close> and every device default.  Only
  integers are accepted; the default itself stays \<open>0.7\<close>.
\<close>

theorem temperature_flag_rejects_fraction:
  "parse_args pf cuda [''--temperature'', ''0.7''] =
     Inl (ArgparseExit (''argument --temperature: invalid int value: '' @ [CHR 0x27] @ ''0.7'' @ [CHR 0x27]))"
  by (simp add: parse_args_def value_flags_def option_like_def negative_number_def
      is_digit_def store_value_def int_value_def py_int_07)

lemma temperature_flag_accepts_integer:
  "parse_args pf cuda [''--temperature'', ''2''] = Inr ((default_args cuda)\<lparr>temperature := 2\<rparr>)"
  by (simp add: parse_args_def value_flags_def option_like_def negative_number_def
      is_digit_def store_value_def int_value_def py_int_2)

lemma temperature_default: "temperature (default_args cuda) = 7 / 10"
  by (simp add: default_args_def)

section \<open>The history window\<close>

lemma py_slice_from_window: "0 < m \<Longrightarrow> int (length (py_slice_from (- m) xs)) \<le> m"
  by (simp add: py_slice_from_def Let_def)

lemma py_slice_from_zero: "py_slice_from (- 0) xs = xs"
  by (simp add: py_slice_from_def)

text \<open>
Claim C3, as amended.  For a positive \<open>max_turns\<close>, the history left by a completed
  turn, in the interactive loop and in the self-play loop alike, holds at most
  \<open>max_turns\<close> utterances.  For a negative \<open>max_turns\<close> the slice
  \<^verbatim>\<open>history[-args.max_turns:]\<close> drops that many utterances from the front, and what it
  leaves is more than \<open>max_turns\<close> utterances.
\<close>

theorem history_window:
  assumes "0 < max_turns a"
  shows "(\<forall>h' w'. interactive_turn env a lang sm personality history w = Returns h' w'
            \<longrightarrow> int (length h') \<le> max_turns a) \<and>
         (\<forall>h' d' w'. self_play_turn env a lang sm p1 p2 i (history, dialog) w = Returns (h', d') w'
            \<longrightarrow> int (length h') \<le> max_turns a)"
proof (intro conjI allI impI)
  fix h' w'
  assume "interactive_turn env a lang sm personality history w = Returns h' w'"
  then obtain xs where "h' = py_slice_from (- max_turns a) xs"
    by (auto simp: interactive_turn_def Let_def split: outcome.splits)
  with assms show "int (length h') \<le> max_turns a"
    by (simp add: py_slice_from_window)
next
  fix h' d' w'
  assume "self_play_turn env a lang sm p1 p2 i (history, dialog) w = Returns (h', d') w'"
  then obtain xs where "h' = py_slice_from (- max_turns a) xs"
    by (auto simp: self_play_turn_def Let_def split: outcome.splits)
  with assms show "int (length h') \<le> max_turns a"
    by (simp add: py_slice_from_window)
qed

lemma demo_codec:
  "decode demo_env ts = map (\<lambda>t. if t = 0 then CHR ''a'' else CHR ''b'') ts"
  "encode demo_env s = map (\<lambda>c. int (of_char c)) s"
  by (simp_all add: demo_env_def)

lemma demo_max_turns: "max_turns demo_args = 3"
  by (simp add: demo_args_def default_args_def)

lemma demo_generate:
  "generate demo_env p h demo_args ''<en>'' demo_special_map w = Returns [0, 0] w"
  by (simp add: generate_def demo_sample)

lemma demo_generate_turns:
  "generate demo_env p h (demo_args\<lparr>max_turns := m\<rparr>) ''<en>'' demo_special_map w
     = Returns [0, 0] w"
  by (simp add: generate_def demo_sample_turns)

theorem history_window_witness:
  "0 < max_turns demo_args \<and>
   (case interactive_turn demo_env demo_args ''<en>'' demo_special_map [[1, 2]] [[7], [8], [9]]
           (demo_world\<lparr>stdin := [''hi'']\<rparr>) of
      Returns h w \<Rightarrow> h = [[9], [104, 105], [0, 0]] \<and> int (length h) \<le> max_turns demo_args
    | Raises e w \<Rightarrow> False
    | Diverges \<Rightarrow> False) \<and>
   (case self_play_turn demo_env demo_args ''<en>'' demo_special_map [[1, 2]] [[1, 2]] 0
           ([[7], [8], [9]], []) demo_world of
      Returns res w \<Rightarrow> fst res = [[8], [9], [0, 0]] \<and> int (length (fst res)) \<le> max_turns demo_args
    | Raises e w \<Rightarrow> False
    | Diverges \<Rightarrow> False)"
proof -
  have m: "0 < max_turns demo_args"
    by (simp add: demo_max_turns)
  have i: "interactive_turn demo_env demo_args ''<en>'' demo_special_map [[1, 2]] [[7], [8], [9]]
           (demo_world\<lparr>stdin := [''hi'']\<rparr>) =
        Returns [[9], [104, 105], [0, 0]]
          (py_print ''aa'' (py_print ''>>> '' (demo_world\<lparr>stdin := []\<rparr>)))"
    by (simp add: interactive_turn_def read_prompt_def py_input_def prompt_loop_accept
        demo_generate py_slice_from_def demo_max_turns demo_codec
        shown_text_def py_print_def demo_world_def)
  have s: "self_play_turn demo_env demo_args ''<en>'' demo_special_map [[1, 2]] [[1, 2]] 0
           ([[7], [8], [9]], []) demo_world =
        Returns ([[8], [9], [0, 0]], [\<lparr>speaker = ''model'', text_of = ''aa''\<rparr>])
          (py_print ''aa'' demo_world)"
    by (simp add: self_play_turn_def demo_generate py_slice_from_def demo_max_turns
        demo_codec shown_text_def Let_def)
  from history_window [OF m, where env = demo_env and lang = "''<en>''"
      and sm = demo_special_map and personality = "[[1, 2]]" and history = "[[7], [8], [9]]"
      and w = "demo_world\<lparr>stdin := [''hi'']\<rparr>"] i
  have a: "int (length [[9], [104, 105], [0, 0 :: int]]) \<le> max_turns demo_args"
    by blast
  from history_window [OF m, where env = demo_env and lang = "''<en>''"
      and sm = demo_special_map and ?p1.0 = "[[1, 2]]" and ?p2.0 = "[[1, 2]]" and i = 0
      and history = "[[7], [8], [9]]" and dialog = "[]" and w = demo_world] s
  have b: "int (length [[8], [9], [0, 0 :: int]]) \<le> max_turns demo_args"
    by blast
  from m i s a b
  show ?thesis by simp
qed

theorem history_window_negative_max_turns:
  "self_play_turn demo_env (demo_args\<lparr>max_turns := - 1\<rparr>) ''<en>'' demo_special_map
       [[1, 2]] [[1, 2]] 0 ([[7], [8], [9]], []) demo_world =
     Returns ([[8], [9], [0, 0]], [\<lparr>speaker = ''model'', text_of = ''aa''\<rparr>])
       (py_print ''aa'' demo_world) \<and>
   \<not> int (length [[8], [9], [0, 0 :: int]]) \<le> max_turns (demo_args\<lparr>max_turns := - 1\<rparr>)"
  by (simp add: self_play_turn_def demo_generate_turns py_slice_from_def demo_codec shown_text_def
      Let_def)

section \<open>The console loops\<close>

lemma language_loop_run:
  "\<lbrakk>list_all (\<lambda>s. s \<notin> set languages) bad; l \<in> set languages; x \<notin> set languages;
    stdin w = bad @ l # rest\<rbrakk>
   \<Longrightarrow> language_loop x w =
         Returns l (w\<lparr>stdin := rest,
                      stdout := stdout w @
                        concat (map (\<lambda>s. [''Choose correct language!'', language_prompt]) (x # bad))\<rparr>)"
proof (induction bad arbitrary: x w)
  case Nil
  then show ?case
    by (simp add: language_loop_again py_input_def py_print_def language_loop_accept)
next
  case (Cons b bad)
  let ?w1 = "w\<lparr>stdin := bad @ l # rest,
                stdout := stdout w @ [''Choose correct language!'', language_prompt]\<rparr>"
  have inp: "py_input language_prompt (py_print ''Choose correct language!'' w) = Returns b ?w1"
    using Cons.prems(4) by (simp add: py_input_def py_print_def)
  have "language_loop b ?w1 =
      Returns l (?w1\<lparr>stdin := rest,
                    stdout := stdout ?w1 @
                      concat (map (\<lambda>s. [''Choose correct language!'', language_prompt]) (b # bad))\<rparr>)"
    using Cons.prems by (intro Cons.IH) simp_all
  with inp Cons.prems(3) show ?case
    by (simp add: language_loop_again)
qed

lemma language_loop_eof:
  "\<lbrakk>list_all (\<lambda>s. s \<notin> set languages) bad; x \<notin> set languages; stdin w = bad\<rbrakk>
   \<Longrightarrow> language_loop x w =
         Raises EOFError (w\<lparr>stdin := [],
                      stdout := stdout w @
                        concat (map (\<lambda>s. [''Choose correct language!'', language_prompt]) (x # bad))\<rparr>)"
proof (induction bad arbitrary: x w)
  case Nil
  then show ?case
    by (simp add: language_loop_again py_input_def py_print_def)
next
  case (Cons b bad)
  let ?w1 = "w\<lparr>stdin := bad,
                stdout := stdout w @ [''Choose correct language!'', language_prompt]\<rparr>"
  have inp: "py_input language_prompt (py_print ''Choose correct language!'' w) = Returns b ?w1"
    using Cons.prems(3) by (simp add: py_input_def py_print_def)
  have "language_loop b ?w1 =
      Raises EOFError (?w1\<lparr>stdin := [],
                    stdout := stdout ?w1 @
                      concat (map (\<lambda>s. [''Choose correct language!'', language_prompt]) (b # bad))\<rparr>)"
    using Cons.prems by (intro Cons.IH) simp_all
  with inp Cons.prems(2) show ?case
    by (simp add: language_loop_again)
qed

lemma choose_language_run:
  assumes "list_all (\<lambda>s. s \<notin> set languages) bad" "l \<in> set languages"
    "stdin w = bad @ l # rest"
  shows "choose_language w =
     Returns (''<'' @ l @ ''>'')
       (w\<lparr>stdin := rest,
          stdout := stdout w @ language_prompt #
            concat (map (\<lambda>s. [''Choose correct language!'', language_prompt]) bad)\<rparr>)"
proof (cases bad)
  case Nil
  with assms show ?thesis
    by (simp add: choose_language_def py_input_def py_print_def language_loop_accept)
next
  case (Cons b bad')
  let ?w1 = "w\<lparr>stdin := bad' @ l # rest, stdout := stdout w @ [language_prompt]\<rparr>"
  have inp: "py_input language_prompt w = Returns b ?w1"
    using assms(3) Cons by (simp add: py_input_def py_print_def)
  have "language_loop b ?w1 =
      Returns l (?w1\<lparr>stdin := rest,
                    stdout := stdout ?w1 @
                      concat (map (\<lambda>s. [''Choose correct language!'', language_prompt]) (b # bad'))\<rparr>)"
    using assms Cons by (intro language_loop_run) simp_all
  with inp Cons show ?thesis
    by (simp add: choose_language_def)
qed

lemma choose_language_eof:
  assumes "list_all (\<lambda>s. s \<notin> set languages) bad" "stdin w = bad"
  shows "choose_language w =
     Raises EOFError
       (w\<lparr>stdin := [],
          stdout := stdout w @ language_prompt #
            concat (map (\<lambda>s. [''Choose correct language!'', language_prompt]) bad)\<rparr>)"
proof (cases bad)
  case Nil
  with assms show ?thesis
    by (simp add: choose_language_def py_input_def py_print_def)
next
  case (Cons b bad')
  let ?w1 = "w\<lparr>stdin := bad', stdout := stdout w @ [language_prompt]\<rparr>"
  have inp: "py_input language_prompt w = Returns b ?w1"
    using assms(2) Cons by (simp add: py_input_def py_print_def)
  have "language_loop b ?w1 =
      Raises EOFError (?w1\<lparr>stdin := [],
                    stdout := stdout ?w1 @
                      concat (map (\<lambda>s. [''Choose correct language!'', language_prompt]) (b # bad'))\<rparr>)"
    using assms Cons by (intro language_loop_eof) simp_all
  with inp Cons show ?thesis
    by (simp add: choose_language_def)
qed


lemma prompt_loop_run:
  "\<lbrakk>t \<noteq> []; stdin w = replicate k [] @ t # rest\<rbrakk>
   \<Longrightarrow> prompt_loop [] w =
         Returns t (w\<lparr>stdin := rest,
                      stdout := stdout w @
                        concat (replicate (Suc k) [''Prompt should not be empty!'', ''>>> ''])\<rparr>)"
proof (induction k arbitrary: w)
  case 0
  then show ?case
    by (simp add: prompt_loop_again py_input_def py_print_def prompt_loop_accept)
next
  case (Suc k)
  let ?w1 = "w\<lparr>stdin := replicate k [] @ t # rest,
                stdout := stdout w @ [''Prompt should not be empty!'', ''>>> '']\<rparr>"
  have inp: "py_input ''>>> '' (py_print ''Prompt should not be empty!'' w) = Returns [] ?w1"
    using Suc.prems(2) by (simp add: py_input_def py_print_def)
  have "prompt_loop [] ?w1 =
      Returns t (?w1\<lparr>stdin := rest,
                    stdout := stdout ?w1 @
                      concat (replicate (Suc k) [''Prompt should not be empty!'', ''>>> ''])\<rparr>)"
    using Suc.prems by (intro Suc.IH) simp_all
  with inp show ?case
    by (simp add: prompt_loop_again)
qed

lemma prompt_loop_eof:
  "stdin w = replicate k [] \<Longrightarrow>
     prompt_loop [] w =
       Raises EOFError (w\<lparr>stdin := [],
                      stdout := stdout w @
                        concat (replicate (Suc k) [''Prompt should not be empty!'', ''>>> ''])\<rparr>)"
proof (induction k arbitrary: w)
  case 0
  then show ?case
    by (simp add: prompt_loop_again py_input_def py_print_def)
next
  case (Suc k)
  let ?w1 = "w\<lparr>stdin := replicate k [],
                stdout := stdout w @ [''Prompt should not be empty!'', ''>>> '']\<rparr>"
  have inp: "py_input ''>>> '' (py_print ''Prompt should not be empty!'' w) = Returns [] ?w1"
    using Suc.prems by (simp add: py_input_def py_print_def)
  have "prompt_loop [] ?w1 =
      Raises EOFError (?w1\<lparr>stdin := [],
                    stdout := stdout ?w1 @
                      concat (replicate (Suc k) [''Prompt should not be empty!'', ''>>> ''])\<rparr>)"
    by (intro Suc.IH) simp
  with inp show ?case
    by (simp add: prompt_loop_again)
qed

lemma read_prompt_run:
  assumes "t \<noteq> []" "stdin w = replicate k [] @ t # rest"
  shows "read_prompt w =
     Returns t
       (w\<lparr>stdin := rest,
          stdout := stdout w @ ''>>> '' #
            concat (replicate k [''Prompt should not be empty!'', ''>>> ''])\<rparr>)"
proof (cases k)
  case 0
  with assms show ?thesis
    by (simp add: read_prompt_def py_input_def py_print_def prompt_loop_accept)
next
  case (Suc k')
  let ?w1 = "w\<lparr>stdin := replicate k' [] @ t # rest, stdout := stdout w @ [''>>> '']\<rparr>"
  have inp: "py_input ''>>> '' w = Returns [] ?w1"
    using assms(2) Suc by (simp add: py_input_def py_print_def)
  have "prompt_loop [] ?w1 =
      Returns t (?w1\<lparr>stdin := rest,
                    stdout := stdout ?w1 @
                      concat (replicate (Suc k') [''Prompt should not be empty!'', ''>>> ''])\<rparr>)"
    using assms by (intro prompt_loop_run) simp_all
  with inp Suc show ?thesis
    by (simp add: read_prompt_def)
qed

lemma read_prompt_eof:
  assumes "stdin w = replicate k []"
  shows "read_prompt w =
     Raises EOFError
       (w\<lparr>stdin := [],
          stdout := stdout w @ ''>>> '' #
            concat (replicate k [''Prompt should not be empty!'', ''>>> ''])\<rparr>)"
proof (cases k)
  case 0
  with assms show ?thesis
    by (simp add: read_prompt_def py_input_def py_print_def)
next
  case (Suc k')
  let ?w1 = "w\<lparr>stdin := replicate k' [], stdout := stdout w @ [''>>> '']\<rparr>"
  have inp: "py_input ''>>> '' w = Returns [] ?w1"
    using assms Suc by (simp add: py_input_def py_print_def)
  have "prompt_loop [] ?w1 =
      Raises EOFError (?w1\<lparr>stdin := [],
                    stdout := stdout ?w1 @
                      concat (replicate (Suc k') [''Prompt should not be empty!'', ''>>> ''])\<rparr>)"
    by (intro prompt_loop_eof) simp
  with inp Suc show ?thesis
    by (simp add: read_prompt_def)
qed

text \<open>
Claim C4.  The language prompt is repeated, with the message
  \<^verbatim>\<open>Choose correct language!\<close>, once for every entry outside the seven languages, and
  the first entry among them is accepted; the interactive prompt is repeated, with the
  message \<^verbatim>\<open>Prompt should not be empty!\<close>, once for every empty entry, and the first
  entry that is not empty is accepted.  A valid first entry is accepted after the one
  prompt.  Entries that are all invalid are never accepted: the loop goes on until the
  input ends, where \<^verbatim>\<open>input\<close> raises.
\<close>

theorem console_reprompts:
  assumes "list_all (\<lambda>s. s \<notin> set languages) bad" and "l \<in> set languages" and "t \<noteq> []"
  shows
    "choose_language (w\<lparr>stdin := bad @ l # rest\<rparr>) =
       Returns (''<'' @ l @ ''>'')
         (w\<lparr>stdin := rest,
            stdout := stdout w @ language_prompt #
              concat (map (\<lambda>s. [''Choose correct language!'', language_prompt]) bad)\<rparr>) \<and>
     choose_language (w\<lparr>stdin := bad\<rparr>) =
       Raises EOFError
         (w\<lparr>stdin := [],
            stdout := stdout w @ language_prompt #
              concat (map (\<lambda>s. [''Choose correct language!'', language_prompt]) bad)\<rparr>) \<and>
     choose_language (w\<lparr>stdin := l # rest\<rparr>) =
       Returns (''<'' @ l @ ''>'') (w\<lparr>stdin := rest, stdout := stdout w @ [language_prompt]\<rparr>) \<and>
     read_prompt (w\<lparr>stdin := replicate k [] @ t # rest\<rparr>) =
       Returns t
         (w\<lparr>stdin := rest,
            stdout := stdout w @ ''>>> '' #
              concat (replicate k [''Prompt should not be empty!'', ''>>> ''])\<rparr>) \<and>
     read_prompt (w\<lparr>stdin := replicate k []\<rparr>) =
       Raises EOFError
         (w\<lparr>stdin := [],
            stdout := stdout w @ ''>>> '' #
              concat (replicate k [''Prompt should not be empty!'', ''>>> ''])\<rparr>) \<and>
     read_prompt (w\<lparr>stdin := t # rest\<rparr>) =
       Returns t (w\<lparr>stdin := rest, stdout := stdout w @ [''>>> '']\<rparr>)"
proof -
  have 1: "choose_language (w\<lparr>stdin := bad @ l # rest\<rparr>) =
       Returns (''<'' @ l @ ''>'')
         (w\<lparr>stdin := rest,
            stdout := stdout w @ language_prompt #
              concat (map (\<lambda>s. [''Choose correct language!'', language_prompt]) bad)\<rparr>)"
    using choose_language_run [OF assms(1,2), of "w\<lparr>stdin := bad @ l # rest\<rparr>" rest] by simp
  have 2: "choose_language (w\<lparr>stdin := bad\<rparr>) =
       Raises EOFError
         (w\<lparr>stdin := [],
            stdout := stdout w @ language_prompt #
              concat (map (\<lambda>s. [''Choose correct language!'', language_prompt]) bad)\<rparr>)"
    using choose_language_eof [OF assms(1), of "w\<lparr>stdin := bad\<rparr>"] by simp
  have 3: "choose_language (w\<lparr>stdin := l # rest\<rparr>) =
       Returns (''<'' @ l @ ''>'') (w\<lparr>stdin := rest, stdout := stdout w @ [language_prompt]\<rparr>)"
    using choose_language_run [of "[]" l "w\<lparr>stdin := l # rest\<rparr>" rest] assms(2) by simp
  have 4: "read_prompt (w\<lparr>stdin := replicate k [] @ t # rest\<rparr>) =
       Returns t
         (w\<lparr>stdin := rest,
            stdout := stdout w @ ''>>> '' #
              concat (replicate k [''Prompt should not be empty!'', ''>>> ''])\<rparr>)"
    using read_prompt_run [OF assms(3), of "w\<lparr>stdin := replicate k [] @ t # rest\<rparr>" k rest]
    by simp
  have 5: "read_prompt (w\<lparr>stdin := replicate k []\<rparr>) =
       Raises EOFError
         (w\<lparr>stdin := [],
            stdout := stdout w @ ''>>> '' #
              concat (replicate k [''Prompt should not be empty!'', ''>>> ''])\<rparr>)"
    using read_prompt_eof [of "w\<lparr>stdin := replicate k []\<rparr>" k] by simp
  have 6: "read_prompt (w\<lparr>stdin := t # rest\<rparr>) =
       Returns t (w\<lparr>stdin := rest, stdout := stdout w @ [''>>> '']\<rparr>)"
    using read_prompt_run [OF assms(3), of "w\<lparr>stdin := t # rest\<rparr>" 0 rest] by simp
  from 1 2 3 4 5 6 show ?thesis by blast
qed

theorem console_reprompts_witness:
  "list_all (\<lambda>s. s \<notin> set languages) [''xx'', ''EN''] \<and> ''en'' \<in> set languages \<and> ''hi'' \<noteq> [] \<and>
   choose_language (demo_world\<lparr>stdin := [''xx'', ''EN'', ''en'', ''hi'']\<rparr>) =
     Returns ''<en>''
       (demo_world\<lparr>stdin := [''hi''],
          stdout := [language_prompt, ''Choose correct language!'', language_prompt,
                     ''Choose correct language!'', language_prompt]\<rparr>) \<and>
   read_prompt (demo_world\<lparr>stdin := [[], ''hi'']\<rparr>) =
     Returns ''hi''
       (demo_world\<lparr>stdin := [], stdout := [''>>> '', ''Prompt should not be empty!'', ''>>> '']\<rparr>)"
proof -
  have h: "list_all (\<lambda>s. s \<notin> set languages) [''xx'', ''EN'']" "''en'' \<in> set languages"
    "''hi'' \<noteq> []"
    by (simp_all add: languages_def)
  from console_reprompts [OF h, where w = demo_world and rest = "[''hi'']"]
    console_reprompts [OF h, where w = demo_world and k = 1 and rest = "[]"] h
  show ?thesis
    by (simp add: demo_world_def)
qed

section \<open>Failures while loading\<close>

lemma seed_generators_console:
  "stdin (seed_generators env a w) = stdin w"
  "stdout (seed_generators env a w) = stdout w"
  "files (seed_generators env a w) = files w"
  by (simp_all add: seed_generators_def)

lemma run_load_failure:
  assumes "parse_args (py_float env) (cuda_available env) argv = Inr a"
    and "load_checkpoint env a = Inl e"
  shows "run env argv w = Raises e (seed_generators env a w)"
  using assms by (simp add: run_def run_with_args_def)

text \<open>
Claim C7.  When the command line parses and one of the loading steps raises (the
  tokenizer, the configuration or the model of the checkpoint, opening or parsing
  \<^verbatim>\<open>added_tokens.json\<close>, loading the weights), \<open>run\<close> ends with that very exception:
  nothing handles it.  Nothing was read from the console, printed or written to a
  transcript before: the state left behind differs from the initial one at most in the
  seeded generators.
\<close>

theorem load_failures_propagate:
  assumes "parse_args (py_float env) (cuda_available env) argv = Inr a"
  shows
    "(tokenizer_from_pretrained env (model_checkpoint a) = Some e
        \<longrightarrow> run env argv w = Raises e (seed_generators env a w)) \<and>
     (tokenizer_from_pretrained env (model_checkpoint a) = None \<and>
      config_from_pretrained env (model_checkpoint a) = Some e
        \<longrightarrow> run env argv w = Raises e (seed_generators env a w)) \<and>
     (tokenizer_from_pretrained env (model_checkpoint a) = None \<and>
      config_from_pretrained env (model_checkpoint a) = None \<and>
      model_from_pretrained env (model_checkpoint a) = Some e
        \<longrightarrow> run env argv w = Raises e (seed_generators env a w)) \<and>
     (tokenizer_from_pretrained env (model_checkpoint a) = None \<and>
      config_from_pretrained env (model_checkpoint a) = None \<and>
      model_from_pretrained env (model_checkpoint a) = None \<and>
      open_read env (model_checkpoint a @ ''/added_tokens.json'') = Inl e
        \<longrightarrow> run env argv w = Raises e (seed_generators env a w)) \<and>
     (tokenizer_from_pretrained env (model_checkpoint a) = None \<and>
      config_from_pretrained env (model_checkpoint a) = None \<and>
      model_from_pretrained env (model_checkpoint a) = None \<and>
      open_read env (model_checkpoint a @ ''/added_tokens.json'') = Inr content \<and>
      json_load env content = Inl e
        \<longrightarrow> run env argv w = Raises e (seed_generators env a w)) \<and>
     (tokenizer_from_pretrained env (model_checkpoint a) = None \<and>
      config_from_pretrained env (model_checkpoint a) = None \<and>
      model_from_pretrained env (model_checkpoint a) = None \<and>
      open_read env (model_checkpoint a @ ''/added_tokens.json'') = Inr content \<and>
      json_load env content = Inr special_map \<and>
      load_state_dict env (model_checkpoint a @ ''/pytorch_model.bin'') = Some e
        \<longrightarrow> run env argv w = Raises e (seed_generators env a w)) \<and>
     stdin (seed_generators env a w) = stdin w \<and>
     stdout (seed_generators env a w) = stdout w \<and>
     files (seed_generators env a w) = files w"
proof -
  have 1: "tokenizer_from_pretrained env (model_checkpoint a) = Some e
      \<Longrightarrow> load_checkpoint env a = Inl e"
    by (simp add: load_checkpoint_def)
  have 2: "tokenizer_from_pretrained env (model_checkpoint a) = None \<Longrightarrow>
      config_from_pretrained env (model_checkpoint a) = Some e
      \<Longrightarrow> load_checkpoint env a = Inl e"
    by (simp add: load_checkpoint_def)
  have 3: "tokenizer_from_pretrained env (model_checkpoint a) = None \<Longrightarrow>
      config_from_pretrained env (model_checkpoint a) = None \<Longrightarrow>
      model_from_pretrained env (model_checkpoint a) = Some e
      \<Longrightarrow> load_checkpoint env a = Inl e"
    by (simp add: load_checkpoint_def)
  have 4: "tokenizer_from_pretrained env (model_checkpoint a) = None \<Longrightarrow>
      config_from_pretrained env (model_checkpoint a) = None \<Longrightarrow>
      model_from_pretrained env (model_checkpoint a) = None \<Longrightarrow>
      open_read env (model_checkpoint a @ ''/added_tokens.json'') = Inl e
      \<Longrightarrow> load_checkpoint env a = Inl e"
    by (simp add: load_checkpoint_def)
  have 5: "tokenizer_from_pretrained env (model_checkpoint a) = None \<Longrightarrow>
      config_from_pretrained env (model_checkpoint a) = None \<Longrightarrow>
      model_from_pretrained env (model_checkpoint a) = None \<Longrightarrow>
      open_read env (model_checkpoint a @ ''/added_tokens.json'') = Inr content \<Longrightarrow>
      json_load env content = Inl e
      \<Longrightarrow> load_checkpoint env a = Inl e"
    by (simp add: load_checkpoint_def)
  have 6: "tokenizer_from_pretrained env (model_checkpoint a) = None \<Longrightarrow>
      config_from_pretrained env (model_checkpoint a) = None \<Longrightarrow>
      model_from_pretrained env (model_checkpoint a) = None \<Longrightarrow>
      open_read env (model_checkpoint a @ ''/added_tokens.json'') = Inr content \<Longrightarrow>
      json_load env content = Inr special_map \<Longrightarrow>
      load_state_dict env (model_checkpoint a @ ''/pytorch_model.bin'') = Some e
      \<Longrightarrow> load_checkpoint env a = Inl e"
    by (simp add: load_checkpoint_def)
  from 1 2 3 4 5 6 run_load_failure [OF assms] show ?thesis
    by (simp add: seed_generators_console)
qed

lemma demo_parse: "parse_args (py_float env) (cuda_available env) [] = Inr (default_args (cuda_available env))"
  by (simp add: parse_args_def)

theorem load_failures_propagate_witness:
  "parse_args (py_float (demo_env\<lparr>json_load := \<lambda>content. Inl ValueError\<rparr>))
       (cuda_available (demo_env\<lparr>json_load := \<lambda>content. Inl ValueError\<rparr>)) [] =
     Inr (default_args False) \<and>
   run (demo_env\<lparr>json_load := \<lambda>content. Inl ValueError\<rparr>) [] demo_world =
     Raises ValueError demo_world \<and>
   run (demo_env\<lparr>tokenizer_from_pretrained := \<lambda>path. Some (LoadError path)\<rparr>) [] demo_world =
     Raises (LoadError []) demo_world"
proof -
  let ?e1 = "demo_env\<lparr>json_load := \<lambda>content. Inl ValueError\<rparr>"
  let ?e2 = "demo_env\<lparr>tokenizer_from_pretrained := \<lambda>path. Some (LoadError path)\<rparr>"
  have p1: "parse_args (py_float ?e1) (cuda_available ?e1) [] = Inr (default_args False)"
    by (simp add: parse_args_def demo_env_def)
  have p2: "parse_args (py_float ?e2) (cuda_available ?e2) [] = Inr (default_args False)"
    by (simp add: parse_args_def demo_env_def)
  have s: "seed_generators env (default_args False) demo_world = demo_world" for env :: "(nat, logit) env"
    by (simp add: seed_generators_def default_args_def)
  have f1: "tokenizer_from_pretrained ?e1 (model_checkpoint (default_args False)) = None"
    "config_from_pretrained ?e1 (model_checkpoint (default_args False)) = None"
    "model_from_pretrained ?e1 (model_checkpoint (default_args False)) = None"
    "open_read ?e1 (model_checkpoint (default_args False) @ ''/added_tokens.json'') = Inr []"
    "json_load ?e1 [] = Inl ValueError"
    by (simp_all add: demo_env_def)
  have f2: "tokenizer_from_pretrained ?e2 (model_checkpoint (default_args False))
      = Some (LoadError [])"
    by (simp add: default_args_def)
  from load_failures_propagate [OF p1, where e = ValueError and w = demo_world
        and content = "[]"] f1
  have "run ?e1 [] demo_world = Raises ValueError (seed_generators ?e1 (default_args False) demo_world)"
    by blast
  then have a: "run ?e1 [] demo_world = Raises ValueError demo_world"
    by (simp only: s)
  from load_failures_propagate [OF p2, where e = "LoadError []" and w = demo_world] f2
  have "run ?e2 [] demo_world = Raises (LoadError []) (seed_generators ?e2 (default_args False) demo_world)"
    by blast
  then have b: "run ?e2 [] demo_world = Raises (LoadError []) demo_world"
    by (simp only: s)
  from p1 a b show ?thesis by simp
qed

section \<open>The self-play transcripts\<close>

lemma self_play_turns_trace:
  "self_play_turns env a lang sm p1 p2 is (h, d) w = Returns (h', d') w' \<Longrightarrow>
     length (generated_turns env a lang sm p1 p2 is h w) = length is \<and>
     d' = d @ map (turn_entry env lang) (zip is (generated_turns env a lang sm p1 p2 is h w)) \<and>
     stdout w' = stdout w @
       map (\<lambda>out. shown_text lang (decode env out)) (generated_turns env a lang sm p1 p2 is h w) \<and>
     files w' = files w \<and> stdin w' = stdin w \<and>
     h' = foldl (\<lambda>hist out. py_slice_from (- max_turns a) (hist @ [out])) h
            (generated_turns env a lang sm p1 p2 is h w)"
proof (induction "is" arbitrary: h d w)
  case Nil
  then show ?case by simp
next
  case (Cons i "is")
  let ?p = "if i mod 2 \<noteq> 0 then p1 else p2"
  from Cons.prems obtain out w1 where
    g: "generate env ?p h a lang sm w = Returns out w1"
    by (auto simp: self_play_turn_def split: outcome.splits)
  let ?h1 = "py_slice_from (- max_turns a) (h @ [out])"
  let ?w1 = "py_print (shown_text lang (decode env out)) w1"
  have t: "self_play_turn env a lang sm p1 p2 i (h, d) w =
      Returns (?h1, d @ [turn_entry env lang (i, out)]) ?w1"
    using g by (simp add: self_play_turn_def turn_entry_def Let_def)
  with Cons.prems have
    "self_play_turns env a lang sm p1 p2 is (?h1, d @ [turn_entry env lang (i, out)]) ?w1
       = Returns (h', d') w'"
    by simp
  note ih = Cons.IH [OF this]
  have w1: "stdout w1 = stdout w" "files w1 = files w" "stdin w1 = stdin w"
    using g by (auto simp: generate_def split: outcome.splits)
  from ih g w1 show ?case
    by (simp add: py_print_def)
qed


lemma random_choice_returns:
  "random_choice env xs w = Returns x w' \<Longrightarrow>
     x \<in> set xs \<and> stdout w' = stdout w \<and> files w' = files w \<and> stdin w' = stdin w"
  by (auto simp: random_choice_def split: if_splits prod.splits)

lemma begin_conversation_returns:
  assumes "begin_conversation env lang pers h w = Returns ((p1, p2), h1, d1) w1"
  shows "\<exists>choices starter.
     map_of starters lang = Some choices \<and> starter \<in> set choices \<and>
     p1 \<in> set pers \<and> p2 \<in> set pers \<and>
     h1 = h @ [encode env starter] \<and>
     d1 = [\<lparr>speaker = ''human_evaluator'', text_of = starter\<rparr>] \<and>
     stdout w1 = stdout w @ [separator, starter] \<and> files w1 = files w \<and> stdin w1 = stdin w"
proof -
  from assms obtain wa wb choices starter wc where
    a: "random_choice env pers (py_print separator w) = Returns p1 wa"
    and b: "random_choice env pers wa = Returns p2 wb"
    and c: "map_of starters lang = Some choices"
    and d: "random_choice env choices wb = Returns starter wc"
    and e: "h1 = h @ [encode env starter]"
      "d1 = [\<lparr>speaker = ''human_evaluator'', text_of = starter\<rparr>]"
      "w1 = py_print starter wc"
    by (auto simp: begin_conversation_def split: outcome.splits option.splits)
  from random_choice_returns [OF a] random_choice_returns [OF b] random_choice_returns [OF d]
    c e
  show ?thesis by (simp add: py_print_def)
qed

lemma append_transcript_returns:
  "append_transcript env lang dialog w = Returns u w' \<Longrightarrow>
     \<exists>lang_name. map_of LANG_MAP lang = Some lang_name \<and>
       w' = w\<lparr>files := (files w)(transcript_path lang_name :=
                  files w (transcript_path lang_name) @ [dialog])\<rparr>"
  by (auto simp: append_transcript_def split: option.splits if_splits)

lemma conversation_returns:
  assumes "conversation env a lang sm pers h w = Returns h' w'"
  shows "\<exists>lang_name p1 p2 starter w1.
     map_of LANG_MAP lang = Some lang_name \<and>
     begin_conversation env lang pers h w =
       Returns ((p1, p2), h @ [encode env starter],
                [\<lparr>speaker = ''human_evaluator'', text_of = starter\<rparr>]) w1 \<and>
     length (generated_turns env a lang sm p1 p2 [0..<13] (h @ [encode env starter]) w1) = 13 \<and>
     files w' = (files w)(transcript_path lang_name :=
        files w (transcript_path lang_name) @
          [\<lparr>speaker = ''human_evaluator'', text_of = starter\<rparr> #
           map (turn_entry env lang)
             (zip [0..<13]
                (generated_turns env a lang sm p1 p2 [0..<13] (h @ [encode env starter]) w1))]) \<and>
     stdout w' = stdout w @ separator # starter #
        map (\<lambda>out. shown_text lang (decode env out))
          (generated_turns env a lang sm p1 p2 [0..<13] (h @ [encode env starter]) w1) \<and>
     stdin w' = stdin w \<and>
     h' = foldl (\<lambda>hist out. py_slice_from (- max_turns a) (hist @ [out]))
            (h @ [encode env starter])
            (generated_turns env a lang sm p1 p2 [0..<13] (h @ [encode env starter]) w1)"
proof -
  from assms obtain p1 p2 h1 d1 w1 d2 w2 u where
    b: "begin_conversation env lang pers h w = Returns ((p1, p2), h1, d1) w1"
    and t: "self_play_turns env a lang sm p1 p2 [0..<13] (h1, d1) w1 = Returns (h', d2) w2"
    and f: "append_transcript env lang d2 w2 = Returns u w'"
    by (auto simp: conversation_def split: outcome.splits prod.splits)
  from begin_conversation_returns [OF b] obtain starter where
    s: "h1 = h @ [encode env starter]"
      "d1 = [\<lparr>speaker = ''human_evaluator'', text_of = starter\<rparr>]"
      "stdout w1 = stdout w @ [separator, starter]" "files w1 = files w" "stdin w1 = stdin w"
    by blast
  from append_transcript_returns [OF f] obtain lang_name where
    l: "map_of LANG_MAP lang = Some lang_name"
      "w' = w2\<lparr>files := (files w2)(transcript_path lang_name :=
                  files w2 (transcript_path lang_name) @ [d2])\<rparr>"
    by blast
  note tr = self_play_turns_trace [OF t]
  from b s l tr show ?thesis
    by (intro exI [of _ lang_name] exI [of _ p1] exI [of _ p2] exI [of _ starter]
        exI [of _ w1]) simp
qed





lemma random_choice_total:
  "xs \<noteq> [] \<Longrightarrow> \<exists>x w'. random_choice env xs w = Returns x w'"
  by (simp add: random_choice_def split: prod.splits)

lemma self_play_turns_total:
  assumes g: "\<And>p h w. \<exists>out w'. generate env p h a lang sm w = Returns out w'"
  shows "\<exists>res w'. self_play_turns env a lang sm p1 p2 is hd_pair w = Returns res w'"
proof (induction "is" arbitrary: hd_pair w)
  case Nil
  show ?case by simp
next
  case (Cons i "is")
  obtain h d where hp: "hd_pair = (h, d)" by (cases hd_pair)
  from g [of "if i mod 2 \<noteq> 0 then p1 else p2" h w] obtain out w1 where
    "generate env (if i mod 2 \<noteq> 0 then p1 else p2) h a lang sm w = Returns out w1"
    by blast
  then have "\<exists>res w1. self_play_turn env a lang sm p1 p2 i hd_pair w = Returns res w1"
    by (simp add: self_play_turn_def hp Let_def)
  then obtain res w1 where "self_play_turn env a lang sm p1 p2 i hd_pair w = Returns res w1"
    by blast
  with Cons.IH [of res w1] show ?case by simp
qed

lemma conversation_total:
  assumes g: "\<And>p h w. \<exists>out w'. generate env p h a lang sm w = Returns out w'"
    and pers: "pers \<noteq> []"
    and st: "map_of starters lang = Some choices" "choices \<noteq> []"
    and ln: "map_of LANG_MAP lang = Some lang_name"
    and ca: "\<And>p. can_append env p"
  shows "\<exists>h' w'. conversation env a lang sm pers h w = Returns h' w'"
proof -
  obtain p1 wa where a: "random_choice env pers (py_print separator w) = Returns p1 wa"
    using random_choice_total [OF pers, of env "py_print separator w"] by blast
  obtain p2 wb where b: "random_choice env pers wa = Returns p2 wb"
    using random_choice_total [OF pers, of env wa] by blast
  obtain starter wc where d: "random_choice env choices wb = Returns starter wc"
    using random_choice_total [OF st(2), of env wb] by blast
  have beg: "begin_conversation env lang pers h w =
      Returns ((p1, p2), h @ [encode env starter],
               [\<lparr>speaker = ''human_evaluator'', text_of = starter\<rparr>]) (py_print starter wc)"
    using a b st d by (simp add: begin_conversation_def)
  obtain h1 d1 w1 where t: "self_play_turns env a lang sm p1 p2
      [0..<13] (h @ [encode env starter],
               [\<lparr>speaker = ''human_evaluator'', text_of = starter\<rparr>]) (py_print starter wc)
      = Returns (h1, d1) w1"
    using self_play_turns_total [OF g] by (metis surj_pair)
  have "\<exists>w2. append_transcript env lang d1 w1 = Returns () w2"
    by (simp add: append_transcript_def ln ca)
  with beg t show ?thesis
    by (auto simp: conversation_def)
qed










lemma demo_random_choice:
  "xs \<noteq> [] \<Longrightarrow> \<exists>x w'. random_choice demo_env xs w = Returns x w'"
  by (simp add: random_choice_def split: prod.splits)

lemma demo_turn_returns:
  "\<exists>res w'. self_play_turn demo_env demo_args ''<en>'' demo_special_map p1 p2 i hd_pair w
      = Returns res w'"
  by (cases hd_pair) (simp add: self_play_turn_def demo_generate Let_def)

lemma demo_turns_return:
  "\<exists>res w'. self_play_turns demo_env demo_args ''<en>'' demo_special_map p1 p2 is hd_pair w
      = Returns res w'"
proof (induction "is" arbitrary: hd_pair w)
  case Nil
  show ?case by simp
next
  case (Cons i "is")
  from demo_turn_returns [of p1 p2 i hd_pair w] obtain res w1 where
    "self_play_turn demo_env demo_args ''<en>'' demo_special_map p1 p2 i hd_pair w
      = Returns res w1"
    by blast
  with Cons.IH [of res w1] show ?case by simp
qed

lemma demo_lang_name: "map_of LANG_MAP ''<en>'' = Some ''En''"
  by (simp add: LANG_MAP_def)

lemma demo_starters: "\<exists>choices. map_of starters ''<en>'' = Some choices \<and> choices \<noteq> []"
  by (simp add: starters_def)

lemma demo_conversation_returns:
  "\<exists>h' w'. conversation demo_env demo_args ''<en>'' demo_special_map [[[1, 2]]] h w
     = Returns h' w'"
proof -
  obtain p1 wa where
    a: "random_choice demo_env [[[1, 2 :: int]]] (py_print separator w) = Returns p1 wa"
    using demo_random_choice [of "[[[1, 2 :: int]]]" "py_print separator w"] by auto
  obtain p2 wb where b: "random_choice demo_env [[[1, 2 :: int]]] wa = Returns p2 wb"
    using demo_random_choice [of "[[[1, 2 :: int]]]" wa] by auto
  obtain choices where c: "map_of starters ''<en>'' = Some choices" "choices \<noteq> []"
    using demo_starters by blast
  obtain starter wc where d: "random_choice demo_env choices wb = Returns starter wc"
    using demo_random_choice [OF c(2), of wb] by blast
  have beg: "begin_conversation demo_env ''<en>'' [[[1, 2]]] h w =
      Returns ((p1, p2), h @ [encode demo_env starter],
               [\<lparr>speaker = ''human_evaluator'', text_of = starter\<rparr>]) (py_print starter wc)"
    using a b c d by (simp add: begin_conversation_def)
  obtain h1 d1 w1 where t: "self_play_turns demo_env demo_args ''<en>'' demo_special_map p1 p2
      [0..<13] (h @ [encode demo_env starter],
               [\<lparr>speaker = ''human_evaluator'', text_of = starter\<rparr>]) (py_print starter wc)
      = Returns (h1, d1) w1"
    using demo_turns_return by (metis surj_pair)
  have ca: "can_append demo_env p" for p
    by (simp add: demo_env_def)
  have "\<exists>w2. append_transcript demo_env ''<en>'' d1 w1 = Returns () w2"
    by (simp add: append_transcript_def demo_lang_name ca)
  with beg t show ?thesis
    by (auto simp: conversation_def)
qed

lemma demo_conversations_return:
  "\<exists>h' w'. conversations demo_env demo_args ''<en>'' demo_special_map [[[1, 2]]] js h w
     = Returns h' w'"
proof (induction js arbitrary: h w)
  case Nil
  show ?case by simp
next
  case (Cons j js)
  from demo_conversation_returns [of h w] obtain h1 w1 where
    "conversation demo_env demo_args ''<en>'' demo_special_map [[[1, 2]]] h w = Returns h1 w1"
    by blast
  with Cons.IH [of h1 w1] show ?case by simp
qed



section \<open>The history across conversations\<close>

lemma py_slice_from_last: "0 < m \<Longrightarrow> py_slice_from (- m) xs = drop (length xs - nat m) xs"
  by (auto simp: py_slice_from_def Let_def max_def nat_diff_distrib' intro: arg_cong [where f = "\<lambda>k. drop k xs"])

lemma py_slice_from_snoc:
  assumes "0 < m"
  shows "py_slice_from (- m) (py_slice_from (- m) xs @ [x]) = py_slice_from (- m) (xs @ [x])"
proof -
  have "0 < nat m" using assms by simp
  then show ?thesis
    unfolding py_slice_from_last [OF assms] by (cases "length xs \<le> nat m") (auto simp: Suc_diff_le)
qed

lemma foldl_window:
  assumes "0 < m"
  shows "foldl (\<lambda>hist out. py_slice_from (- m) (hist @ [out])) h outs =
     (if outs = [] then h else py_slice_from (- m) (h @ outs))"
proof (induction outs rule: rev_induct)
  case Nil
  show ?case by simp
next
  case (snoc out outs)
  show ?case
  proof (cases "outs = []")
    case True
    then show ?thesis by simp
  next
    case False
    with snoc have "foldl (\<lambda>hist out. py_slice_from (- m) (hist @ [out])) h (outs @ [out]) =
        py_slice_from (- m) (py_slice_from (- m) (h @ outs) @ [out])"
      by simp
    also have "\<dots> = py_slice_from (- m) ((h @ outs) @ [out])"
      by (rule py_slice_from_snoc [OF assms])
    finally show ?thesis by simp
  qed
qed


lemma py_slice_from_nonempty: "0 < m \<Longrightarrow> xs \<noteq> [] \<Longrightarrow> py_slice_from (- m) xs \<noteq> []"
proof -
  assume "0 < m" "xs \<noteq> []"
  then have "0 < nat m" "0 < length xs" by simp_all
  then have "length xs - nat m < length xs" by arith
  with \<open>0 < m\<close> show ?thesis by (simp add: py_slice_from_last)
qed

lemma py_slice_from_last_elem:
  "0 < m \<Longrightarrow> last (py_slice_from (- m) (xs @ [x])) = x"
proof -
  assume "0 < m"
  then have "py_slice_from (- m) (xs @ [x]) = drop (length xs - (nat m - 1)) xs @ [x]"
    by (simp add: py_slice_from_last Suc_diff_le)
  then show ?thesis by simp
qed

lemma self_play_turns_snoc:
  "self_play_turns env a lang sm p1 p2 (is @ [i]) hd_pair w = Returns res w' \<Longrightarrow>
     \<exists>hd_pair' wb. self_play_turns env a lang sm p1 p2 is hd_pair w = Returns hd_pair' wb \<and>
       self_play_turn env a lang sm p1 p2 i hd_pair' wb = Returns res w'"
proof (induction "is" arbitrary: hd_pair w)
  case Nil
  then show ?case by (auto split: outcome.splits)
next
  case (Cons k "is")
  from Cons.prems obtain hd1 w1 where
    t: "self_play_turn env a lang sm p1 p2 k hd_pair w = Returns hd1 w1"
    and r: "self_play_turns env a lang sm p1 p2 (is @ [i]) hd1 w1 = Returns res w'"
    by (auto split: outcome.splits)
  from Cons.IH [OF r] t show ?case by simp
qed

lemma generated_turns_snoc:
  "self_play_turns env a lang sm p1 p2 is (h, d) w = Returns (hb, db) wb \<Longrightarrow>
   generate env (if i mod 2 \<noteq> 0 then p1 else p2) hb a lang sm wb = Returns out wc \<Longrightarrow>
     generated_turns env a lang sm p1 p2 (is @ [i]) h w =
       generated_turns env a lang sm p1 p2 is h w @ [out]"
proof (induction "is" arbitrary: h d w)
  case Nil
  then show ?case by simp
next
  case (Cons k "is")
  let ?p = "if k mod 2 \<noteq> 0 then p1 else p2"
  from Cons.prems(1) obtain o1 w1 where
    g: "generate env ?p h a lang sm w = Returns o1 w1"
    by (auto simp: self_play_turn_def split: outcome.splits)
  let ?h1 = "py_slice_from (- max_turns a) (h @ [o1])"
  let ?w1 = "py_print (shown_text lang (decode env o1)) w1"
  have t: "self_play_turn env a lang sm p1 p2 k (h, d) w =
      Returns (?h1, d @ [turn_entry env lang (k, o1)]) ?w1"
    using g by (simp add: self_play_turn_def turn_entry_def Let_def)
  with Cons.prems(1) have
    "self_play_turns env a lang sm p1 p2 is (?h1, d @ [turn_entry env lang (k, o1)]) ?w1
       = Returns (hb, db) wb"
    by simp
  from Cons.IH [OF this Cons.prems(2)] g show ?case by simp
qed

text \<open>
Claim C10, as amended.  The self-play loop never resets the history: the conversation
  after a completed one starts from the history that one returned.  For a positive
  \<open>max_turns\<close> this history is not empty and holds at most \<open>max_turns\<close> utterances: the last
  ones of what the history was before, the starter and the thirteen replies.  Its last
  utterance is the reply that the thirteenth turn generated.  The new starter is appended
  after it, and the first turn of the new conversation is the call of \<open>sample_sequence\<close>
  on that history.  For a negative \<open>max_turns\<close> the slice drops utterances from the front
  instead, and the history that is carried over can be empty.
\<close>

theorem history_carried_over:
  assumes "0 < max_turns a"
    and "conversation env a lang sm pers h w = Returns h1 w1"
  shows
    "conversations env a lang sm pers (j # js) h w =
       conversations env a lang sm pers js h1 w1 \<and>
     h1 \<noteq> [] \<and> int (length h1) \<le> max_turns a \<and>
     (\<exists>p1 p2 starter w0 outs hb db wb wc.
        begin_conversation env lang pers h w =
          Returns ((p1, p2), h @ [encode env starter],
                   [\<lparr>speaker = ''human_evaluator'', text_of = starter\<rparr>]) w0 \<and>
        outs = generated_turns env a lang sm p1 p2 [0..<13] (h @ [encode env starter]) w0 \<and>
        length outs = 13 \<and>
        h1 = py_slice_from (- max_turns a) (h @ encode env starter # outs) \<and>
        self_play_turns env a lang sm p1 p2 [0..<12]
          (h @ [encode env starter], [\<lparr>speaker = ''human_evaluator'', text_of = starter\<rparr>]) w0
          = Returns (hb, db) wb \<and>
        generate env p2 hb a lang sm wb = Returns (last outs) wc \<and>
        h1 = py_slice_from (- max_turns a) (hb @ [last outs]) \<and>
        last h1 = last outs) \<and>
     (\<forall>p1 p2 h2 d w2.
        begin_conversation env lang pers h1 w1 = Returns ((p1, p2), h2, d) w2 \<longrightarrow>
          (\<exists>starter. h2 = h1 @ [encode env starter] \<and>
             self_play_turn env a lang sm p1 p2 0 (h2, d) w2 =
               (case sample_sequence env p2 (h1 @ [encode env starter]) a lang sm None (rng w2) of
                  Returns out r \<Rightarrow>
                    Returns (py_slice_from (- max_turns a) (h1 @ [encode env starter, out]),
                             d @ [turn_entry env lang (0, out)])
                      (py_print (shown_text lang (decode env out)) (w2\<lparr>rng := r\<rparr>))
                | Raises e r \<Rightarrow> Raises e (w2\<lparr>rng := r\<rparr>)
                | Diverges \<Rightarrow> Diverges)))"
proof -
  from conversation_returns [OF assms(2)] obtain p1 p2 starter w0 where
    b: "begin_conversation env lang pers h w =
          Returns ((p1, p2), h @ [encode env starter],
                   [\<lparr>speaker = ''human_evaluator'', text_of = starter\<rparr>]) w0"
    and n: "length (generated_turns env a lang sm p1 p2 [0..<13] (h @ [encode env starter]) w0) = 13"
    and h1: "h1 = foldl (\<lambda>hist out. py_slice_from (- max_turns a) (hist @ [out]))
            (h @ [encode env starter])
            (generated_turns env a lang sm p1 p2 [0..<13] (h @ [encode env starter]) w0)"
    by blast
  let ?h0 = "h @ [encode env starter]"
  let ?d0 = "[\<lparr>speaker = ''human_evaluator'', text_of = starter\<rparr>]"
  let ?outs = "generated_turns env a lang sm p1 p2 [0..<13] ?h0 w0"
  from n have ne: "?outs \<noteq> []" by auto
  have eq: "h1 = py_slice_from (- max_turns a) (h @ encode env starter # ?outs)"
    unfolding h1 foldl_window [OF assms(1)] using ne by simp
  have 1: "conversations env a lang sm pers (j # js) h w =
       conversations env a lang sm pers js h1 w1"
    using assms(2) by simp
  have 2: "h1 \<noteq> []"
    unfolding eq using assms(1) by (rule py_slice_from_nonempty) simp
  have 3: "int (length h1) \<le> max_turns a"
    unfolding eq using assms(1) by (rule py_slice_from_window)
  from assms(2) b obtain d2 w2 where
    t: "self_play_turns env a lang sm p1 p2 [0..<13] (?h0, ?d0) w0 = Returns (h1, d2) w2"
    by (auto simp: conversation_def split: outcome.splits prod.splits)
  have u: "[0..<13] = [0..<12] @ [12 :: nat]"
    by (simp add: upt_rec)
  from self_play_turns_snoc [OF t [unfolded u]] obtain hb db wb where
    tb: "self_play_turns env a lang sm p1 p2 [0..<12] (?h0, ?d0) w0 = Returns (hb, db) wb"
    and tl: "self_play_turn env a lang sm p1 p2 12 (hb, db) wb = Returns (h1, d2) w2"
    by (metis surj_pair)
  from tl obtain out wc where
    g: "generate env p2 hb a lang sm wb = Returns out wc"
    and hl: "h1 = py_slice_from (- max_turns a) (hb @ [out])"
    by (auto simp: self_play_turn_def Let_def split: outcome.splits)
  from g have g': "generate env (if (12 :: nat) mod 2 \<noteq> 0 then p1 else p2) hb a lang sm wb
      = Returns out wc"
    by simp
  have lo: "last ?outs = out"
    unfolding u generated_turns_snoc [OF tb g'] by simp
  have ll: "last h1 = out"
    unfolding hl using assms(1) by (rule py_slice_from_last_elem)
  have 4: "\<exists>p1 p2 starter w0 outs hb db wb wc.
        begin_conversation env lang pers h w =
          Returns ((p1, p2), h @ [encode env starter],
                   [\<lparr>speaker = ''human_evaluator'', text_of = starter\<rparr>]) w0 \<and>
        outs = generated_turns env a lang sm p1 p2 [0..<13] (h @ [encode env starter]) w0 \<and>
        length outs = 13 \<and>
        h1 = py_slice_from (- max_turns a) (h @ encode env starter # outs) \<and>
        self_play_turns env a lang sm p1 p2 [0..<12]
          (h @ [encode env starter], [\<lparr>speaker = ''human_evaluator'', text_of = starter\<rparr>]) w0
          = Returns (hb, db) wb \<and>
        generate env p2 hb a lang sm wb = Returns (last outs) wc \<and>
        h1 = py_slice_from (- max_turns a) (hb @ [last outs]) \<and>
        last h1 = last outs"
    using b n eq tb g hl ll unfolding lo [symmetric]
    by (intro exI [of _ p1] exI [of _ p2] exI [of _ starter] exI [of _ w0] exI [of _ ?outs]
        exI [of _ hb] exI [of _ db] exI [of _ wb] exI [of _ wc]) simp
  have 5: "\<exists>starter. h2 = h1 @ [encode env starter] \<and>
             self_play_turn env a lang sm p1' p2' 0 (h2, d) w2' =
               (case sample_sequence env p2' (h1 @ [encode env starter]) a lang sm None (rng w2') of
                  Returns out r \<Rightarrow>
                    Returns (py_slice_from (- max_turns a) (h1 @ [encode env starter, out]),
                             d @ [turn_entry env lang (0, out)])
                      (py_print (shown_text lang (decode env out)) (w2'\<lparr>rng := r\<rparr>))
                | Raises e r \<Rightarrow> Raises e (w2'\<lparr>rng := r\<rparr>)
                | Diverges \<Rightarrow> Diverges)"
    if bb: "begin_conversation env lang pers h1 w1 = Returns ((p1', p2'), h2, d) w2'"
    for p1' p2' h2 d w2'
  proof -
    from begin_conversation_returns [OF bb] obtain s where s: "h2 = h1 @ [encode env s]"
      by blast
    have "self_play_turn env a lang sm p1' p2' 0 (h2, d) w2' =
               (case sample_sequence env p2' (h1 @ [encode env s]) a lang sm None (rng w2') of
                  Returns out r \<Rightarrow>
                    Returns (py_slice_from (- max_turns a) (h1 @ [encode env s, out]),
                             d @ [turn_entry env lang (0, out)])
                      (py_print (shown_text lang (decode env out)) (w2'\<lparr>rng := r\<rparr>))
                | Raises e r \<Rightarrow> Raises e (w2'\<lparr>rng := r\<rparr>)
                | Diverges \<Rightarrow> Diverges)"
      by (simp add: self_play_turn_def generate_def turn_entry_def s Let_def
          split: outcome.splits)
    with s show ?thesis by blast
  qed
  from 1 2 3 4 5 show ?thesis by blast
qed

lemma demo_conversation_turns_returns:
  "\<exists>h' w'. conversation demo_env (demo_args\<lparr>max_turns := m\<rparr>) ''<en>'' demo_special_map
      [[[1, 2]]] h w = Returns h' w'"
proof -
  obtain choices where c: "map_of starters ''<en>'' = Some choices" "choices \<noteq> []"
    using demo_starters by blast
  have ca: "can_append demo_env p" for p
    by (simp add: demo_env_def)
  show ?thesis
    by (rule conversation_total [OF _ _ c demo_lang_name ca]) (simp_all add: demo_generate_turns)
qed

theorem history_carried_over_witness:
  "0 < max_turns demo_args \<and>
   (\<exists>h1 w1. conversation demo_env demo_args ''<en>'' demo_special_map [[[1, 2]]] [] demo_world
        = Returns h1 w1 \<and>
      h1 \<noteq> [] \<and> int (length h1) \<le> max_turns demo_args \<and> last h1 = [0, 0] \<and>
      conversations demo_env demo_args ''<en>'' demo_special_map [[[1, 2]]] [0, 1] [] demo_world =
        conversations demo_env demo_args ''<en>'' demo_special_map [[[1, 2]]] [1] h1 w1)"
proof -
  have m: "0 < max_turns demo_args"
    by (simp add: demo_max_turns)
  obtain h1 w1 where c: "conversation demo_env demo_args ''<en>'' demo_special_map [[[1, 2]]] []
      demo_world = Returns h1 w1"
    using demo_conversation_returns by blast
  note t = history_carried_over [OF m c, of 0 "[1]"]
  from t have a: "conversations demo_env demo_args ''<en>'' demo_special_map [[[1, 2]]] [0, 1] []
      demo_world = conversations demo_env demo_args ''<en>'' demo_special_map [[[1, 2]]] [1] h1 w1"
    and b: "h1 \<noteq> []" "int (length h1) \<le> max_turns demo_args"
    by blast+
  from t obtain p2 hb wb wc outs where
    "generate demo_env p2 hb demo_args ''<en>'' demo_special_map wb = Returns (last outs) wc"
    "last h1 = last outs"
    by blast
  then have "last h1 = [0, 0]"
    by (simp add: demo_generate)
  with m c a b show ?thesis
    by blast
qed

theorem history_carried_over_negative_max_turns:
  "(case conversation demo_env (demo_args\<lparr>max_turns := - 2\<rparr>) ''<en>'' demo_special_map
          [[[1, 2]]] [] demo_world of
      Returns h1 w1 \<Rightarrow>
        h1 = [] \<and> \<not> int (length h1) \<le> max_turns (demo_args\<lparr>max_turns := - 2\<rparr>)
    | Raises e w1 \<Rightarrow> False
    | Diverges \<Rightarrow> False)"
proof -
  let ?a = "demo_args\<lparr>max_turns := - 2\<rparr>"
  obtain h1 w1 where c: "conversation demo_env ?a ''<en>'' demo_special_map [[[1, 2]]] []
      demo_world = Returns h1 w1"
    using demo_conversation_turns_returns by blast
  from conversation_returns [OF c] obtain p1 p2 starter wb where
    n: "length (generated_turns demo_env ?a ''<en>'' demo_special_map p1 p2 [0..<13]
          ([] @ [encode demo_env starter]) wb) = 13"
    and h1: "h1 = foldl (\<lambda>hist out. py_slice_from (- max_turns ?a) (hist @ [out]))
            ([] @ [encode demo_env starter])
            (generated_turns demo_env ?a ''<en>'' demo_special_map p1 p2 [0..<13]
               ([] @ [encode demo_env starter]) wb)"
    by blast
  have f: "foldl (\<lambda>hist out. py_slice_from (- max_turns ?a) (hist @ [out])) h outs = []"
    if "length h \<le> 1" "outs \<noteq> []" for h outs :: "utterance list"
    using that
  proof (induction outs arbitrary: h)
    case Nil
    then show ?case by simp
  next
    case (Cons x outs)
    have s: "py_slice_from (- max_turns ?a) (h @ [x]) = []"
      using Cons.prems(1) by (simp add: py_slice_from_def)
    show ?case
    proof (cases "outs = []")
      case True
      with s show ?thesis by simp
    next
      case False
      with Cons.IH [of "[]"] s show ?thesis by simp
    qed
  qed
  from n have "generated_turns demo_env ?a ''<en>'' demo_special_map p1 p2 [0..<13]
               ([] @ [encode demo_env starter]) wb \<noteq> []"
    by auto
  with h1 f have "h1 = []"
    by simp
  with c show ?thesis by simp
qed

section \<open>Filtering keeps a best token\<close>

lemma mset_insort_desc: "mset (insort_desc p qs) = add_mset p (mset qs)"
  by (induction qs) auto

lemma set_insort_desc: "set (insort_desc p qs) = insert p (set qs)"
  by (induction qs) auto

lemma sorted_insort_desc:
  "sorted_wrt (\<lambda>p q. fst q \<le> fst p) qs \<Longrightarrow> sorted_wrt (\<lambda>p q. fst q \<le> fst p) (insort_desc p qs)"
  by (induction qs) (auto simp: set_insort_desc)

lemma mset_foldr_insort_desc: "mset (foldr insort_desc ps []) = mset ps"
  by (induction ps) (auto simp: mset_insort_desc)

lemma sorted_foldr_insort_desc: "sorted_wrt (\<lambda>p q. fst q \<le> fst p) (foldr insort_desc ps [])"
  by (induction ps) (auto simp: sorted_insort_desc)

lemma mset_torch_sort_desc: "mset (torch_sort_desc xs) = mset (zip xs [0..<length xs])"
  by (simp add: torch_sort_desc_def mset_foldr_insort_desc)

lemma sorted_torch_sort_desc: "sorted_wrt (\<lambda>p q. fst q \<le> fst p) (torch_sort_desc xs)"
  by (simp add: torch_sort_desc_def sorted_foldr_insort_desc)

lemma length_torch_sort_desc [simp]: "length (torch_sort_desc xs) = length xs"
  using arg_cong [OF mset_torch_sort_desc, of size xs] by simp

lemma set_torch_sort_desc:
  "set (torch_sort_desc xs) = {(xs ! i, i) | i. i < length xs}"
proof -
  have "set (torch_sort_desc xs) = set (zip xs [0..<length xs])"
    using arg_cong [OF mset_torch_sort_desc, of set_mset xs] by simp
  also have "\<dots> = {(xs ! i, i) | i. i < length xs}"
    by (auto simp: set_zip)
  finally show ?thesis .
qed

lemma mset_sorted_indices: "mset (map snd (torch_sort_desc xs)) = mset [0..<length xs]"
proof -
  have z: "map snd (zip xs [0..<length xs]) = [0..<length xs]"
    by simp
  have "mset (map snd (torch_sort_desc xs)) = image_mset snd (mset (torch_sort_desc xs))"
    by (simp only: mset_map)
  also have "\<dots> = image_mset snd (mset (zip xs [0..<length xs]))"
    by (simp only: mset_torch_sort_desc)
  also have "\<dots> = mset (map snd (zip xs [0..<length xs]))"
    by (simp only: mset_map)
  finally show ?thesis
    by (simp only: z)
qed

lemma mset_sorted_logits: "mset (map fst (torch_sort_desc xs)) = mset xs"
proof -
  have z: "map fst (zip xs [0..<length xs]) = xs"
    by simp
  have "mset (map fst (torch_sort_desc xs)) = image_mset fst (mset (torch_sort_desc xs))"
    by (simp only: mset_map)
  also have "\<dots> = image_mset fst (mset (zip xs [0..<length xs]))"
    by (simp only: mset_torch_sort_desc)
  also have "\<dots> = mset (map fst (zip xs [0..<length xs]))"
    by (simp only: mset_map)
  finally show ?thesis
    by (simp only: z)
qed

lemma distinct_sorted_indices: "distinct (map snd (torch_sort_desc xs))"
  using mset_sorted_indices [of xs] by (metis distinct_upt mset_eq_imp_distinct_iff)

lemma set_sorted_indices: "set (map snd (torch_sort_desc xs)) = {..<length xs}"
  using arg_cong [OF mset_sorted_indices, of set_mset xs] by (simp add: lessThan_atLeast0)

lemma sorted_pair_nth:
  "j < length xs \<Longrightarrow> snd (torch_sort_desc xs ! j) < length xs \<and>
     fst (torch_sort_desc xs ! j) = xs ! snd (torch_sort_desc xs ! j)"
proof -
  assume "j < length xs"
  then have "torch_sort_desc xs ! j \<in> set (torch_sort_desc xs)"
    by simp
  then show ?thesis
    unfolding set_torch_sort_desc by auto
qed

lemma sorted_desc_nth:
  "i \<le> j \<Longrightarrow> j < length xs \<Longrightarrow> fst (torch_sort_desc xs ! j) \<le> fst (torch_sort_desc xs ! i)"
  using sorted_torch_sort_desc [of xs]
  by (cases "i = j") (auto simp: sorted_wrt_iff_nth_less)

lemma sorted_head_max:
  assumes "xs \<noteq> []" and "i < length xs"
  shows "xs ! i \<le> fst (torch_sort_desc xs ! 0)"
proof -
  have "(xs ! i, i) \<in> set (torch_sort_desc xs)"
    using assms(2) unfolding set_torch_sort_desc by blast
  then obtain j where j: "j < length xs" "torch_sort_desc xs ! j = (xs ! i, i)"
    by (auto simp: in_set_conv_nth)
  from sorted_desc_nth [of 0 j xs] j show ?thesis by simp
qed


lemma length_index_fill [simp]: "length (index_fill xs idxs v) = length xs"
  unfolding index_fill_def by (induction idxs arbitrary: xs) auto

lemma index_fill_nth:
  "i < length xs \<Longrightarrow> index_fill xs idxs v ! i = (if i \<in> set idxs then v else xs ! i)"
  unfolding index_fill_def
proof (induction idxs arbitrary: xs)
  case Nil
  then show ?case by simp
next
  case (Cons a idxs)
  then show ?case by (auto simp: nth_list_update)
qed

lemma mask_fill_map: "mask_fill xs (map P xs) v = map (\<lambda>x. if P x then v else x) xs"
  unfolding mask_fill_def by (induction xs) auto

lemma length_cumsum_from [simp]: "length (cumsum_from a xs) = length xs"
  by (induction xs arbitrary: a) auto

lemma cumsum_from_nth:
  "j < length xs \<Longrightarrow> cumsum_from a xs ! j = a + sum_list (take (Suc j) xs)"
proof (induction xs arbitrary: a j)
  case Nil
  then show ?case by simp
next
  case (Cons x xs)
  then show ?case by (cases j) (auto simp: add.assoc)
qed

lemma cumsum_nth: "j < length xs \<Longrightarrow> cumsum xs ! j = sum_list (take (Suc j) xs)"
  by (simp add: cumsum_def cumsum_from_nth)

lemma shift_clear: "r \<noteq> [] \<Longrightarrow> (take 1 r @ butlast r)[0 := False] = False # butlast r"
  by (cases r) auto

lemma shift_clear_nth:
  "j < length r \<Longrightarrow> (False # butlast r) ! j = (0 < j \<and> r ! (j - 1))"
  by (cases j) (auto simp: nth_butlast)

lemma removed_indices:
  "length bs = length is \<Longrightarrow>
     set (map fst (filter snd (zip is bs))) = {is ! j | j. j < length is \<and> bs ! j}"
  by (auto simp: set_zip image_iff) force

lemma removed_index_iff:
  assumes "distinct is" "length bs = length is" "j < length is"
  shows "is ! j \<in> set (map fst (filter snd (zip is bs))) \<longleftrightarrow> bs ! j"
  unfolding removed_indices [OF assms(2)] using assms(1,3)
  by (auto simp: nth_eq_iff_index_eq)


lemma length_softmax: "softmax xs = Some ps \<Longrightarrow> length ps = length xs"
  by (auto simp: softmax_def split: if_splits)

lemma top_p_filter_nth:
  assumes ne: "xs \<noteq> []"
    and r: "r = (case softmax (map fst (torch_sort_desc xs)) of
                  None \<Rightarrow> map (\<lambda>_. False) (map fst (torch_sort_desc xs))
                | Some ps \<Rightarrow> map (\<lambda>c. c > p) (cumsum ps))"
  shows "\<exists>out. top_p_filter xs p fv = Inr out \<and> length out = length xs \<and>
     (\<forall>j<length xs. out ! snd (torch_sort_desc xs ! j) =
        (if 0 < j \<and> r ! (j - 1) then fv else xs ! snd (torch_sort_desc xs ! j)))"
proof -
  let ?S = "torch_sort_desc xs"
  let ?is = "map snd ?S"
  have lr: "length r = length xs"
    unfolding r cumsum_def by (auto split: option.splits dest: length_softmax)
  then have rne: "r \<noteq> []" using ne by auto
  let ?cl = "False # butlast r"
  let ?rem = "map fst (filter snd (zip ?is ?cl))"
  have lcl: "length ?cl = length ?is"
    using lr ne by (cases xs) simp_all
  have tp: "top_p_filter xs p fv = Inr (index_fill xs ?rem fv)"
    unfolding top_p_filter_def Let_def r [symmetric] shift_clear [OF rne] using rne by simp
  have "index_fill xs ?rem fv ! snd (?S ! j) =
        (if 0 < j \<and> r ! (j - 1) then fv else xs ! snd (?S ! j))" if j: "j < length xs" for j
  proof -
    have i: "snd (?S ! j) < length xs"
      using sorted_pair_nth [OF j] by simp
    have "snd (?S ! j) \<in> set ?rem \<longleftrightarrow> ?cl ! j"
      using removed_index_iff [OF distinct_sorted_indices lcl, of j] j by simp
    also have "\<dots> \<longleftrightarrow> 0 < j \<and> r ! (j - 1)"
      using shift_clear_nth [of j r] j lr by simp
    finally show ?thesis
      using index_fill_nth [OF i, of ?rem fv] by simp
  qed
  with tp show ?thesis by simp
qed


lemma top_p_filter_keeps_head:
  assumes "xs \<noteq> []"
  shows "\<exists>out. top_p_filter xs p fv = Inr out \<and> length out = length xs \<and>
     out ! snd (torch_sort_desc xs ! 0) = xs ! snd (torch_sort_desc xs ! 0)"
proof -
  from top_p_filter_nth [OF assms refl, of p fv] obtain out where
    o: "top_p_filter xs p fv = Inr out" "length out = length xs"
      "\<forall>j<length xs. out ! snd (torch_sort_desc xs ! j) =
        (if 0 < j \<and> (case softmax (map fst (torch_sort_desc xs)) of
                  None \<Rightarrow> map (\<lambda>_. False) (map fst (torch_sort_desc xs))
                | Some ps \<Rightarrow> map (\<lambda>c. c > p) (cumsum ps)) ! (j - 1)
         then fv else xs ! snd (torch_sort_desc xs ! j))"
    by blast
  from o(3) assms have "out ! snd (torch_sort_desc xs ! 0) = xs ! snd (torch_sort_desc xs ! 0)"
    by auto
  with o show ?thesis by blast
qed

lemma head_index_max:
  assumes "xs \<noteq> []"
  shows "snd (torch_sort_desc xs ! 0) < length xs \<and>
     (\<forall>j<length xs. xs ! j \<le> xs ! snd (torch_sort_desc xs ! 0))"
proof -
  have 0: "0 < length xs" using assms by simp
  from sorted_pair_nth [OF 0] sorted_head_max [OF assms] show ?thesis by simp
qed

lemma topk_last_le_max:
  assumes "0 < k" "k \<le> length xs" "i < length xs" "\<forall>j<length xs. xs ! j \<le> xs ! i"
  shows "topk_last xs k \<le> xs ! i"
proof -
  have j: "k - 1 < length xs" using assms by simp
  have "topk_last xs k = fst (torch_sort_desc xs ! (k - 1))"
    using j by (simp add: topk_last_def)
  also have "\<dots> = xs ! snd (torch_sort_desc xs ! (k - 1))"
    using sorted_pair_nth [OF j] by simp
  also have "\<dots> \<le> xs ! i"
    using sorted_pair_nth [OF j] assms(4) by simp
  finally show ?thesis .
qed

lemma mask_fill_false: "mask_fill xs (map (\<lambda>x. False) xs) v = xs"
  using mask_fill_map [of xs "\<lambda>x. False" v] by simp

lemma threshold_neg_inf: "mask_fill xs (map (\<lambda>x. x < NegInf) xs) v = xs"
  by (simp add: mask_fill_false)

text \<open>
Claim C8, as amended.  On every non-empty tensor, for every \<open>top_k\<close> and \<open>top_p\<close> and the
  default threshold, \<open>top_filtering\<close> returns a tensor of the same size in which at least
  one index holding the maximum logit keeps its value; so when some logit is finite the
  result is not minus infinity everywhere and its softmax is defined.  (Of several
  indices tied at the maximum, all but one can be filtered.)
\<close>

theorem top_filtering_keeps_a_maximum:
  assumes "logits \<noteq> []"
  shows "\<exists>out i. top_filtering logits k p NegInf NegInf = Inr out \<and>
     length out = length logits \<and> i < length logits \<and>
     (\<forall>j<length logits. logits ! j \<le> logits ! i) \<and> out ! i = logits ! i \<and>
     (list_ex (\<lambda>x. x \<noteq> NegInf) logits \<longrightarrow> softmax out \<noteq> None)"
proof -
  let ?n = "length logits"
  let ?k = "min k (int ?n)"
  let ?l1 = "if ?k > 0
     then mask_fill logits (map (\<lambda>x. x < topk_last logits (nat ?k)) logits) NegInf
     else logits"
  let ?i0 = "snd (torch_sort_desc logits ! 0)"
  from head_index_max [OF assms] have i0: "?i0 < ?n" "\<forall>j<?n. logits ! j \<le> logits ! ?i0"
    by simp_all
  have len1: "length ?l1 = ?n"
    by (simp add: mask_fill_map)
  have le1: "?l1 ! j \<le> logits ! j" if "j < ?n" for j
    using that by (simp add: mask_fill_map)
  have keep1: "?l1 ! ?i0 = logits ! ?i0"
  proof (cases "?k > 0")
    case True
    then have "0 < nat ?k" "nat ?k \<le> ?n" by simp_all
    from topk_last_le_max [OF this i0] have "\<not> logits ! ?i0 < topk_last logits (nat ?k)"
      by simp
    with True i0(1) show ?thesis by (simp add: mask_fill_map)
  next
    case False
    then show ?thesis by (simp only: if_False)
  qed
  have ne1: "?l1 \<noteq> []"
    using len1 assms by (metis length_0_conv)
  obtain out2 i where o2: "(if p > 0 then top_p_filter ?l1 p NegInf else Inr ?l1) = Inr out2"
    "length out2 = ?n" and i: "i < ?n" "\<forall>j<?n. logits ! j \<le> logits ! i" "out2 ! i = logits ! i"
  proof (cases "p > 0")
    case True
    let ?i1 = "snd (torch_sort_desc ?l1 ! 0)"
    from top_p_filter_keeps_head [OF ne1, of p NegInf] obtain out where
      o: "top_p_filter ?l1 p NegInf = Inr out" "length out = length ?l1" "out ! ?i1 = ?l1 ! ?i1"
      by blast
    from head_index_max [OF ne1] have i1: "?i1 < ?n" "\<forall>j<?n. ?l1 ! j \<le> ?l1 ! ?i1"
      unfolding len1 by simp_all
    have "logits ! ?i0 \<le> ?l1 ! ?i1"
      using i1(2) i0(1) keep1 by (metis (no_types, lifting))
    moreover have "?l1 ! ?i1 \<le> logits ! ?i1"
      using le1 [OF i1(1)] .
    moreover have "logits ! ?i1 \<le> logits ! ?i0"
      using i0(2) i1(1) by blast
    ultimately have eq: "?l1 ! ?i1 = logits ! ?i1" "logits ! ?i1 = logits ! ?i0"
      by simp_all
    have "\<forall>j<?n. logits ! j \<le> logits ! ?i1"
      using i0(2) eq(2) by simp
    with that [of out ?i1] o i1(1) eq len1 True show ?thesis
      by simp
  next
    case False
    with that [of ?l1 ?i0] i0 keep1 len1 show ?thesis
      by simp
  qed
  have tf: "top_filtering logits k p NegInf NegInf = Inr out2"
    unfolding top_filtering_def Let_def o2(1) by (simp add: mask_fill_false)
  have "softmax out2 \<noteq> None" if "list_ex (\<lambda>x. x \<noteq> NegInf) logits"
  proof -
    from that obtain j where j: "j < ?n" "logits ! j \<noteq> NegInf"
      by (auto simp: list_ex_iff in_set_conv_nth)
    with i(2) have "logits ! i \<noteq> NegInf"
      by (metis less_eq_option_None_is_None)
    moreover have "out2 ! i \<in> set out2"
      using i(1) o2(2) by (intro nth_mem) simp
    ultimately have "out2 ! i \<in> set out2" "out2 ! i \<noteq> NegInf"
      using i(3) by simp_all
    then show ?thesis
      by (auto simp: softmax_def list_all_iff)
  qed
  with tf o2(2) i show ?thesis by blast
qed


theorem top_filtering_keeps_a_maximum_witness:
  "[Fin 0, Fin 0] \<noteq> ([] :: logit list) \<and>
   (\<exists>out i. top_filtering [Fin 0, Fin 0] 1 (3 / 10) NegInf NegInf = Inr out \<and>
      length out = length [Fin 0, Fin 0 :: logit] \<and> i < length [Fin 0, Fin 0 :: logit] \<and>
      out ! i = [Fin 0, Fin 0] ! i \<and> softmax out \<noteq> None)"
proof -
  have ne: "[Fin 0, Fin 0] \<noteq> ([] :: logit list)"
    by simp
  have ex: "list_ex (\<lambda>x. x \<noteq> NegInf) [Fin 0, Fin 0 :: logit]"
    by simp
  from top_filtering_keeps_a_maximum [OF ne, of 1 "3 / 10"] ex ne show ?thesis
    by blast
qed

theorem top_filtering_filters_a_tied_maximum:
  "top_filtering [Fin 0, Fin 0] 0 (3 / 10) NegInf NegInf = Inr [Fin 0, NegInf] \<and>
   [Fin 0, Fin 0 :: logit] ! 0 \<le> [Fin 0, Fin 0] ! 1 \<and>
   [Fin 0, NegInf :: logit] ! 1 \<noteq> [Fin 0, Fin 0] ! 1"
  by (simp add: top_filtering_def top_p_filter_def torch_sort_desc_def softmax_def expl_def
      cumsum_def mask_fill_def index_fill_def)

section \<open>Nucleus filtering\<close>

lemma expl_nonneg: "0 \<le> expl x"
  by (cases x) (simp_all add: expl_def)

lemma expl_mono: "x \<le> y \<Longrightarrow> expl x \<le> expl y"
  by (cases x; cases y) (simp_all add: expl_def)

lemma sum_expl_nonneg: "0 \<le> sum_list (map expl xs)"
  by (induction xs) (simp_all add: expl_nonneg)

lemma sum_expl_pos:
  "list_ex (\<lambda>x. x \<noteq> NegInf) xs \<Longrightarrow> 0 < sum_list (map expl xs)"
proof (induction xs)
  case Nil
  then show ?case by simp
next
  case (Cons x xs)
  show ?case
  proof (cases x)
    case None
    then have "expl x = 0" by (simp add: expl_def)
    with Cons None show ?thesis by simp
  next
    case (Some r)
    then have "0 < expl x" by (simp add: expl_def)
    with sum_expl_nonneg [of xs] show ?thesis
      by (simp add: add_pos_nonneg)
  qed
qed

lemma sum_expl_sorted: "sum_list (map expl (map fst (torch_sort_desc xs))) = sum_list (map expl xs)"
proof -
  have "mset (map expl (map fst (torch_sort_desc xs))) = mset (map expl xs)"
    using mset_sorted_logits [of xs] by (metis mset_map)
  then show ?thesis
    by (metis sum_mset_sum_list)
qed

lemma list_ex_sorted:
  "list_ex P (map fst (torch_sort_desc xs)) \<longleftrightarrow> list_ex P xs"
proof -
  have "set (map fst (torch_sort_desc xs)) = set xs"
    using mset_sorted_logits [of xs] by (metis set_mset_mset)
  then show ?thesis by (simp add: list_ex_iff)
qed

lemma softmax_sorted:
  assumes "list_ex (\<lambda>x. x \<noteq> NegInf) xs"
  shows "softmax (map fst (torch_sort_desc xs)) =
     Some (map (\<lambda>x. expl x / sum_list (map expl xs)) (map fst (torch_sort_desc xs)))"
proof -
  have "list_ex (\<lambda>x. x \<noteq> NegInf) (map fst (torch_sort_desc xs))"
    using assms by (simp only: list_ex_sorted)
  then have "\<not> list_all (\<lambda>x. x = NegInf) (map fst (torch_sort_desc xs))"
    by (auto simp: list_ex_iff list_all_iff)
  then show ?thesis
    unfolding softmax_def sum_expl_sorted by simp
qed

lemma sum_take_mono:
  "(\<And>x. x \<in> set ps \<Longrightarrow> 0 \<le> x) \<Longrightarrow> i \<le> j \<Longrightarrow>
     sum_list (take i ps) \<le> sum_list (take j (ps :: real list))"
proof (induction ps arbitrary: i j)
  case Nil
  then show ?case by simp
next
  case (Cons x ps)
  show ?case
  proof (cases i)
    case 0
    have "0 \<le> sum_list (take j (x # ps))"
      using Cons.prems(1) by (intro sum_list_nonneg) (auto dest: in_set_takeD)
    with 0 show ?thesis by simp
  next
    case (Suc i')
    with Cons.prems(2) obtain j' where j: "j = Suc j'" "i' \<le> j'"
      by (cases j) auto
    from Cons.IH [OF _ j(2)] Cons.prems(1) Suc j show ?thesis by simp
  qed
qed

lemma top_sum:
  "sorted_wrt (\<lambda>a b. b \<le> a) qs \<Longrightarrow> J \<subseteq> {..<length qs} \<Longrightarrow>
     (\<Sum>j\<in>J. qs ! j) \<le> sum_list (take (card J) (qs :: real list))"
proof (induction qs arbitrary: J)
  case Nil
  then show ?case by simp
next
  case (Cons q qs)
  have fin: "finite J"
    using Cons.prems(2) finite_subset by blast
  define J' where "J' = {j. Suc j \<in> J}"
  have J'sub: "J' \<subseteq> {..<length qs}"
    using Cons.prems(2) by (auto simp: J'_def)
  then have finJ': "finite J'"
    using finite_subset by blast
  have srt: "sorted_wrt (\<lambda>a b. b \<le> a) qs"
    using Cons.prems(1) by simp
  note ih = Cons.IH [OF srt J'sub]
  have inj: "inj_on Suc J'" by simp
  have img: "Suc ` J' = J - {0}"
    by (auto simp: J'_def image_iff) (metis not0_implies_Suc)+
  have sumJ': "(\<Sum>j\<in>J - {0}. (q # qs) ! j) = (\<Sum>j\<in>J'. qs ! j)"
    unfolding img [symmetric] by (simp add: sum.reindex)
  have cardJ': "card (J - {0}) = card J'"
    unfolding img [symmetric] by (simp add: card_image)
  show ?case
  proof (cases "0 \<in> J")
    case True
    then have "J = insert 0 (J - {0})" by blast
    then have s: "(\<Sum>j\<in>J. (q # qs) ! j) = q + (\<Sum>j\<in>J - {0}. (q # qs) ! j)"
      using fin by (metis Diff_iff finite_Diff insertI1 nth_Cons_0 sum.insert)
    have c: "card J = Suc (card J')"
      using True fin cardJ' by (metis card.remove)
    show ?thesis
      unfolding s sumJ' c using ih by simp
  next
    case False
    then have e: "J - {0} = J" by blast
    have s: "(\<Sum>j\<in>J. (q # qs) ! j) = (\<Sum>j\<in>J'. qs ! j)"
      using sumJ' e by simp
    have c: "card J = card J'"
      using cardJ' e by simp
    have le: "card J' \<le> length qs"
      using J'sub by (metis card_lessThan card_mono finite_lessThan)
    have "sum_list (take (card J') qs) \<le> sum_list (take (card J') (q # qs))"
    proof (cases "card J'")
      case 0
      then show ?thesis by simp
    next
      case (Suc c')
      then have c'lt: "c' < length qs" using le by simp
      have "take (Suc c') qs = take c' qs @ [qs ! c']"
        using c'lt by (rule take_Suc_conv_app_nth)
      moreover have "qs ! c' \<le> q"
        using Cons.prems(1) c'lt by simp
      ultimately show ?thesis
        using Suc by simp
    qed
    with ih show ?thesis
      unfolding s c by simp
  qed
qed


lemma length_sorted_probs [simp]: "length (sorted_probs xs) = length xs"
  by (simp add: sorted_probs_def)

lemma softmax_sorted_probs:
  "list_ex (\<lambda>x. x \<noteq> NegInf) xs \<Longrightarrow> softmax (map fst (torch_sort_desc xs)) = Some (sorted_probs xs)"
  by (simp add: softmax_sorted sorted_probs_def)

lemma sorted_probs_nth:
  "j < length xs \<Longrightarrow> sorted_probs xs ! j = probability xs (snd (torch_sort_desc xs ! j))"
  using sorted_pair_nth [of j xs] by (simp add: sorted_probs_def probability_def)

lemma sorted_probs_nonneg: "x \<in> set (sorted_probs xs) \<Longrightarrow> 0 \<le> x"
  by (auto simp: sorted_probs_def expl_nonneg sum_expl_nonneg)

lemma sum_list_divide: "sum_list (map (\<lambda>x. f x / (c :: real)) xs) = sum_list (map f xs) / c"
  by (induction xs) (simp_all add: add_divide_distrib)

lemma sorted_probs_sum:
  "list_ex (\<lambda>x. x \<noteq> NegInf) xs \<Longrightarrow> sum_list (sorted_probs xs) = 1"
proof -
  assume "list_ex (\<lambda>x. x \<noteq> NegInf) xs"
  then have z: "0 < sum_list (map expl xs)" by (rule sum_expl_pos)
  have "sum_list (sorted_probs xs) =
      sum_list (map expl (map fst (torch_sort_desc xs))) / sum_list (map expl xs)"
    unfolding sorted_probs_def map_map comp_def by (rule sum_list_divide)
  also have "\<dots> = 1"
    unfolding sum_expl_sorted using z by simp
  finally show ?thesis .
qed

lemma sorted_probs_desc: "sorted_wrt (\<lambda>a b. b \<le> a) (sorted_probs xs)"
proof -
  have "sorted_wrt (\<lambda>p q. expl (fst q) / sum_list (map expl xs) \<le> expl (fst p) / sum_list (map expl xs))
      (torch_sort_desc xs)"
    using sorted_torch_sort_desc [of xs]
    by (rule sorted_wrt_mono_rel [rotated])
      (simp add: expl_mono divide_right_mono sum_expl_nonneg)
  then show ?thesis
    by (simp add: sorted_probs_def sorted_wrt_map)
qed

lemma sorted_index_surj:
  "i < length xs \<Longrightarrow> \<exists>j<length xs. snd (torch_sort_desc xs ! j) = i"
proof -
  assume "i < length xs"
  then have "i \<in> set (map snd (torch_sort_desc xs))"
    by (simp only: set_sorted_indices lessThan_iff)
  then show ?thesis
    by (auto simp: in_set_conv_nth) (metis snd_conv)
qed

lemma sorted_index_inj:
  "a < length xs \<Longrightarrow> b < length xs \<Longrightarrow>
     snd (torch_sort_desc xs ! a) = snd (torch_sort_desc xs ! b) \<longleftrightarrow> a = b"
  using distinct_sorted_indices [of xs] by (auto simp: distinct_conv_nth)

lemma sum_list_take_nth:
  "k \<le> length ps \<Longrightarrow> sum_list (take k ps) = (\<Sum>j<k. (ps :: real list) ! j)"
proof -
  assume k: "k \<le> length ps"
  have "sum_list (take k ps) = (\<Sum>j = 0..<length (take k ps). take k ps ! j)"
    by (rule sum_list_sum_nth)
  also have "\<dots> = (\<Sum>j<k. ps ! j)"
    using k by (simp add: min_absorb2 lessThan_atLeast0)
  finally show ?thesis .
qed


lemma top_filtering_nucleus_only:
  "0 < p \<Longrightarrow> top_filtering xs 0 p NegInf NegInf =
     (case top_p_filter xs p NegInf of Inl e \<Rightarrow> Inl e | Inr out \<Rightarrow> Inr out)"
  by (simp add: top_filtering_def mask_fill_false split: sum.splits)

lemma top_p_filter_sorted:
  assumes ne: "xs \<noteq> []" and fin: "list_ex (\<lambda>x. x \<noteq> NegInf) xs"
  shows "\<exists>out. top_p_filter xs p NegInf = Inr out \<and> length out = length xs \<and>
     (\<forall>j<length xs. out ! snd (torch_sort_desc xs ! j) =
        (if 0 < j \<and> p < sum_list (take j (sorted_probs xs)) then NegInf
         else xs ! snd (torch_sort_desc xs ! j)))"
proof -
  let ?r = "map (\<lambda>c. c > p) (cumsum (sorted_probs xs))"
  have r: "?r = (case softmax (map fst (torch_sort_desc xs)) of
                  None \<Rightarrow> map (\<lambda>_. False) (map fst (torch_sort_desc xs))
                | Some ps \<Rightarrow> map (\<lambda>c. c > p) (cumsum ps))"
    by (simp add: softmax_sorted_probs [OF fin])
  from top_p_filter_nth [OF ne r, of NegInf] obtain out where
    o: "top_p_filter xs p NegInf = Inr out" "length out = length xs"
      "\<forall>j<length xs. out ! snd (torch_sort_desc xs ! j) =
        (if 0 < j \<and> ?r ! (j - 1) then NegInf else xs ! snd (torch_sort_desc xs ! j))"
    by blast
  have "(0 < j \<and> ?r ! (j - 1)) \<longleftrightarrow> (0 < j \<and> p < sum_list (take j (sorted_probs xs)))"
    if "j < length xs" for j
  proof (cases j)
    case 0
    then show ?thesis by simp
  next
    case (Suc j')
    with that have "j' < length (sorted_probs xs)" by simp
    then have "?r ! j' = (p < sum_list (take (Suc j') (sorted_probs xs)))"
      by (simp add: cumsum_def cumsum_nth [unfolded cumsum_def])
    with Suc show ?thesis by simp
  qed
  with o show ?thesis by auto
qed

lemma nth_eq_via_sorted:
  assumes "length out = length xs" "length ys = length xs"
    and "\<And>j. j < length xs \<Longrightarrow>
      out ! snd (torch_sort_desc xs ! j) = ys ! snd (torch_sort_desc xs ! j)"
  shows "out = ys"
proof (rule nth_equalityI)
  show "length out = length ys" using assms by simp
next
  fix i assume "i < length out"
  then have "i < length xs" using assms(1) by simp
  from sorted_index_surj [OF this] obtain j where "j < length xs" "snd (torch_sort_desc xs ! j) = i"
    by blast
  with assms(3) [of j] show "out ! i = ys ! i" by simp
qed

lemma top_p_filter_all:
  assumes ne: "xs \<noteq> []" and fin: "list_ex (\<lambda>x. x \<noteq> NegInf) xs" and p: "1 \<le> p"
  shows "top_p_filter xs p NegInf = Inr xs"
proof -
  from top_p_filter_sorted [OF ne fin, of p] obtain out where
    o: "top_p_filter xs p NegInf = Inr out" "length out = length xs"
      "\<forall>j<length xs. out ! snd (torch_sort_desc xs ! j) =
        (if 0 < j \<and> p < sum_list (take j (sorted_probs xs)) then NegInf
         else xs ! snd (torch_sort_desc xs ! j))"
    by blast
  have "\<not> p < sum_list (take j (sorted_probs xs))" if "j < length xs" for j
  proof -
    have "sum_list (take j (sorted_probs xs)) \<le> sum_list (take (length xs) (sorted_probs xs))"
      using that by (intro sum_take_mono sorted_probs_nonneg) simp_all
    also have "\<dots> = 1"
      using sorted_probs_sum [OF fin] by simp
    finally show ?thesis using p by simp
  qed
  with o(3) have "out ! snd (torch_sort_desc xs ! j) = xs ! snd (torch_sort_desc xs ! j)"
    if "j < length xs" for j
    using that by simp
  with o(2) have "out = xs"
    by (intro nth_eq_via_sorted [of out xs xs]) simp_all
  with o(1) show ?thesis by simp
qed


lemma top_p_filter_nucleus:
  assumes ne: "xs \<noteq> []" and fin: "list_ex (\<lambda>x. x \<noteq> NegInf) xs"
    and p0: "0 < p" and p1: "p < 1"
  shows "\<exists>K. nucleus xs p K \<and>
     top_p_filter xs p NegInf =
       Inr (map (\<lambda>i. if i \<in> K then xs ! i else NegInf) [0..<length xs])"
proof -
  let ?n = "length xs"
  let ?ps = "sorted_probs xs"
  let ?ix = "\<lambda>j. snd (torch_sort_desc xs ! j)"
  let ?over = "\<lambda>k. p < sum_list (take k ?ps)"
  define m where "m = (LEAST k. ?over k)"
  have full: "?over ?n"
    using sorted_probs_sum [OF fin] p1 by simp
  have m_over: "?over m"
    unfolding m_def using full by (rule LeastI)
  have m_le: "m \<le> ?n"
    unfolding m_def using full by (rule Least_le)
  have m_least: "\<not> ?over k" if "k < m" for k
    using that not_less_Least unfolding m_def by blast
  have m_pos: "0 < m"
  proof (rule ccontr)
    assume "\<not> 0 < m"
    with m_over p0 show False by simp
  qed
  have over_iff: "?over k \<longleftrightarrow> m \<le> k" for k
  proof
    assume "?over k"
    with m_least [of k] show "m \<le> k" by (meson not_le_imp_less)
  next
    assume "m \<le> k"
    then have "sum_list (take m ?ps) \<le> sum_list (take k ?ps)"
      by (intro sum_take_mono sorted_probs_nonneg)
    with m_over show "?over k" by simp
  qed
  define K where "K = ?ix ` {..<m}"
  have inj: "inj_on ?ix {..<m}"
    using m_le by (intro inj_onI) (simp add: sorted_index_inj)
  have in_K: "?ix j \<in> K \<longleftrightarrow> j < m" if "j < ?n" for j
    using that m_le unfolding K_def by (auto simp: image_iff sorted_index_inj)
  have cardK: "card K = m"
    unfolding K_def using inj by (simp add: card_image)
  have Ksub: "K \<subseteq> {..<?n}"
    unfolding K_def using m_le sorted_pair_nth [of _ xs] by auto
  \<comment> \<open>the result of the filter\<close>
  from top_p_filter_sorted [OF ne fin, of p] obtain out where
    o: "top_p_filter xs p NegInf = Inr out" "length out = ?n"
      "\<forall>j<?n. out ! ?ix j =
        (if 0 < j \<and> ?over j then NegInf else xs ! ?ix j)"
    by blast
  have "out ! ?ix j = map (\<lambda>i. if i \<in> K then xs ! i else NegInf) [0..<?n] ! ?ix j"
    if j: "j < ?n" for j
  proof -
    have "(0 < j \<and> ?over j) \<longleftrightarrow> \<not> j < m"
      using over_iff [of j] m_pos by auto
    with o(3) j in_K [OF j] sorted_pair_nth [OF j] show ?thesis by simp
  qed
  with o(2) have out: "out = map (\<lambda>i. if i \<in> K then xs ! i else NegInf) [0..<?n]"
    by (intro nth_eq_via_sorted [of out xs]) simp_all
  \<comment> \<open>the mass of the kept set\<close>
  have "(\<Sum>i\<in>K. probability xs i) = (\<Sum>j<m. probability xs (?ix j))"
    unfolding K_def using inj by (simp add: sum.reindex)
  also have "\<dots> = (\<Sum>j<m. ?ps ! j)"
    using m_le by (intro sum.cong refl) (simp add: sorted_probs_nth)
  also have "\<dots> = sum_list (take m ?ps)"
    using m_le by (simp add: sum_list_take_nth)
  finally have mass: "p < (\<Sum>i\<in>K. probability xs i)"
    using m_over by simp
  \<comment> \<open>the kept tokens are the best ones\<close>
  have top: "xs ! j \<le> xs ! i" if "i \<in> K" "j < ?n" "j \<notin> K" for i j
  proof -
    from that(1) obtain a where a: "a < m" "i = ?ix a"
      unfolding K_def by blast
    from sorted_index_surj [OF that(2)] obtain b where b: "b < ?n" "j = ?ix b"
      by blast
    from that(3) b in_K [OF b(1)] have "m \<le> b" by simp
    with a have "a \<le> b" by simp
    from sorted_desc_nth [OF this b(1)] sorted_pair_nth [OF b(1)] sorted_pair_nth [of a xs]
      a b m_le
    show ?thesis by simp
  qed
  \<comment> \<open>no smaller set has enough mass\<close>
  have small: "card K \<le> card K'"
    if sub: "K' \<subseteq> {..<?n}" and big: "p < (\<Sum>i\<in>K'. probability xs i)" for K'
  proof (rule ccontr)
    assume "\<not> card K \<le> card K'"
    then have less: "card K' < m" using cardK by simp
    define J where "J = {j. j < ?n \<and> ?ix j \<in> K'}"
    have Jsub: "J \<subseteq> {..<length ?ps}"
      by (auto simp: J_def)
    have injJ: "inj_on ?ix J"
      by (intro inj_onI) (simp add: J_def sorted_index_inj)
    have img: "?ix ` J = K'"
    proof
      show "?ix ` J \<subseteq> K'" by (auto simp: J_def)
    next
      show "K' \<subseteq> ?ix ` J"
      proof
        fix i assume i: "i \<in> K'"
        with sub have "i < ?n" by auto
        from sorted_index_surj [OF this] obtain j where "j < ?n" "?ix j = i" by blast
        with i show "i \<in> ?ix ` J" by (auto simp: J_def image_iff)
      qed
    qed
    have cardJ: "card J = card K'"
      using injJ img by (metis card_image)
    have "(\<Sum>i\<in>K'. probability xs i) = (\<Sum>j\<in>J. probability xs (?ix j))"
      unfolding img [symmetric] using injJ by (simp add: sum.reindex)
    also have "\<dots> = (\<Sum>j\<in>J. ?ps ! j)"
      by (intro sum.cong refl) (simp add: J_def sorted_probs_nth)
    also have "\<dots> \<le> sum_list (take (card J) ?ps)"
      using sorted_probs_desc Jsub by (rule top_sum)
    finally have "?over (card K')"
      using big cardJ by simp
    with over_iff [of "card K'"] less show False by simp
  qed
  have "nucleus xs p K"
    unfolding nucleus_def using Ksub mass top small by blast
  with o(1) out show ?thesis by blast
qed


text \<open>
  In exact arithmetic, for a non-empty tensor with a finite logit, \<open>top_k = 0\<close>, \<open>top_p > 0\<close>
  and the default threshold: if \<open>top_p < 1\<close>, \<open>top_filtering\<close> leaves unfiltered exactly a
  smallest set of highest-probability tokens whose cumulative softmax probability exceeds
  \<open>top_p\<close> (a \<open>nucleus\<close>), and assigns minus infinity to every other index.  If
  \<open>top_p \<ge> 1\<close> no set of tokens exceeds \<open>top_p\<close>, and nothing is filtered.
\<close>

lemma top_filtering_nucleus_exact:
  assumes "logits \<noteq> []" and "list_ex (\<lambda>x. x \<noteq> NegInf) logits" and "0 < p"
  shows "(p < 1 \<longrightarrow>
            (\<exists>K. nucleus logits p K \<and>
               top_filtering logits 0 p NegInf NegInf =
                 Inr (map (\<lambda>i. if i \<in> K then logits ! i else NegInf) [0..<length logits]))) \<and>
         (1 \<le> p \<longrightarrow> top_filtering logits 0 p NegInf NegInf = Inr logits)"
proof (intro conjI impI)
  assume "p < 1"
  from top_p_filter_nucleus [OF assms this]
  show "\<exists>K. nucleus logits p K \<and>
               top_filtering logits 0 p NegInf NegInf =
                 Inr (map (\<lambda>i. if i \<in> K then logits ! i else NegInf) [0..<length logits])"
    by (auto simp: top_filtering_nucleus_only [OF assms(3)])
next
  assume "1 \<le> p"
  from top_p_filter_all [OF assms(1,2) this]
  show "top_filtering logits 0 p NegInf NegInf = Inr logits"
    by (simp add: top_filtering_nucleus_only [OF assms(3)])
qed

lemma top_filtering_two_equal:
  "top_filtering [Fin 0, Fin 0] 0 (3 / 10) NegInf NegInf = Inr [Fin 0, NegInf]"
  by (simp add: top_filtering_def top_p_filter_def torch_sort_desc_def softmax_def expl_def
      cumsum_def mask_fill_def index_fill_def)

subsection \<open>The exact operations\<close>

text \<open>The function on exact tensors is the function over the exact operations.\<close>

lemma exact_mask:
  "map (\<lambda>c. gt_float exact_torch c p) (torch_cumsum exact_torch (F_softmax exact_torch vs)) =
     (case softmax vs of
        None \<Rightarrow> map (\<lambda>x. False) vs
      | Some ps \<Rightarrow> map (\<lambda>c. c > p) (cumsum ps))"
proof (cases "softmax vs")
  case None
  then have ne: "vs \<noteq> []"
    by (auto simp: softmax_def split: if_splits)
  then have "\<not> list_all (\<lambda>x. x \<noteq> None) (map (\<lambda>x. NegInf) vs)"
    by (cases vs) simp_all
  with None show ?thesis
    by (simp add: exact_torch_def exact_softmax_def exact_cumsum_def o_def)
next
  case (Some ps)
  have "list_all (\<lambda>x. x \<noteq> None) (map Some ps)"
    by (simp add: list_all_iff)
  moreover have "map the (map Some ps) = ps"
    by (simp add: o_def)
  ultimately show ?thesis
    using Some by (simp add: exact_torch_def exact_softmax_def exact_cumsum_def o_def)
qed

lemma top_p_filter_exact:
  "top_p_filter_with exact_torch logits p fv = top_p_filter logits p fv"
proof -
  have s: "torch_sort exact_torch = torch_sort_desc"
    by (simp add: exact_torch_def)
  show ?thesis
    unfolding top_p_filter_with_def top_p_filter_def Let_def exact_mask s ..
qed

lemma topk_last_exact:
  assumes "0 < k" and "k \<le> length xs"
  shows "fst (last (torch_topk exact_torch xs k)) = topk_last xs k"
proof -
  have "last (take k (torch_sort_desc xs)) = torch_sort_desc xs ! (k - 1)"
  proof -
    have "length (take k (torch_sort_desc xs)) = k"
      using assms by simp
    with assms have "take k (torch_sort_desc xs) \<noteq> []"
      by (metis length_0_conv less_numeral_extra(3))
    then have "last (take k (torch_sort_desc xs)) =
        take k (torch_sort_desc xs) ! (length (take k (torch_sort_desc xs)) - 1)"
      by (rule last_conv_nth)
    also have "\<dots> = torch_sort_desc xs ! (k - 1)"
      using assms by simp
    finally show ?thesis .
  qed
  with assms show ?thesis
    by (simp add: exact_torch_def topk_last_def)
qed

lemma top_filtering_exact:
  "top_filtering_with exact_torch logits k p th fv = top_filtering logits k p th fv"
proof -
  have l: "lt exact_torch = (\<lambda>x y. x < y)"
    by (simp add: exact_torch_def)
  have "fst (last (torch_topk exact_torch logits (nat (min k (int (length logits))))))
      = topk_last logits (nat (min k (int (length logits))))"
    if "0 < min k (int (length logits))"
    using that by (intro topk_last_exact) auto
  then show ?thesis
    unfolding top_filtering_with_def top_filtering_def Let_def top_p_filter_exact l
    by (auto split: sum.splits)
qed









subsection \<open>Any tensor operations\<close>











text \<open>
  Rounding matters at the boundary.  For the logits \<open>0\<close> and \<open>- 1 / 1073741824\<close> (two to
  the power \<open>- 30\<close>) and \<open>top_p = 1/2\<close>, a softmax that rounds both probabilities to
  \<open>1/2\<close>, as single precision does, filters nothing, and the exact softmax filters the
  second token.
\<close>

lemma rounded_softmax_keeps_both:
  "top_filtering_with (exact_torch\<lparr>F_softmax := (\<lambda>xs. replicate (length xs) (Fin (1 / 2)))\<rparr>)
       [Fin 0, Fin (- (1 / 1073741824))] 0 (1 / 2) NegInf NegInf =
     Inr [Fin 0, Fin (- (1 / 1073741824))]"
proof -
  let ?T = "exact_torch\<lparr>F_softmax := (\<lambda>xs. replicate (length xs) (Fin (1 / 2)))\<rparr>"
  have s: "torch_sort ?T [Fin 0, Fin (- (1 / 1073741824))] = [(Fin 0, 0), (Fin (- (1 / 1073741824)), 1)]"
    by (simp add: exact_torch_def torch_sort_desc_def)
  have c: "torch_cumsum ?T (F_softmax ?T [Fin 0, Fin (- (1 / 1073741824))]) = [Fin (1 / 2), Fin 1]"
    by (simp add: exact_torch_def exact_cumsum_def cumsum_def numeral_2_eq_2 del: not_None_eq)
  have g: "gt_float ?T (Fin x) q = (q < x)" "lt ?T y NegInf = False" for x q y
    by (simp_all add: exact_torch_def)
  have "top_p_filter_with ?T [Fin 0, Fin (- (1 / 1073741824))] (1 / 2) NegInf =
      Inr [Fin 0, Fin (- (1 / 1073741824))]"
    unfolding top_p_filter_with_def Let_def s list.map fst_conv snd_conv c
    by (simp add: index_fill_def g demo_torch)
  then show ?thesis
    by (simp add: top_filtering_with_def mask_fill_def g demo_torch)
qed

lemma exact_softmax_filters_second:
  "top_filtering_with exact_torch [Fin 0, Fin (- (1 / 1073741824))] 0 (1 / 2) NegInf NegInf =
     Inr [Fin 0, NegInf]"
proof -
  let ?e = "exp (- (1 / 1073741824) :: real)"
  have e: "0 < ?e" "?e < 1"
    by simp_all
  have s: "torch_sort exact_torch [Fin 0, Fin (- (1 / 1073741824))] =
      [(Fin 0, 0), (Fin (- (1 / 1073741824)), 1)]"
    by (simp add: exact_torch_def torch_sort_desc_def)
  have f: "F_softmax exact_torch [Fin 0, Fin (- (1 / 1073741824))] =
      [Fin (1 / (1 + ?e)), Fin (?e / (1 + ?e))]"
    by (simp add: exact_torch_def exact_softmax_def softmax_def expl_def)
  have c: "torch_cumsum exact_torch [Fin (1 / (1 + ?e)), Fin (?e / (1 + ?e))] =
      [Fin (1 / (1 + ?e)), Fin (1 / (1 + ?e) + ?e / (1 + ?e))]"
    by (simp add: exact_torch_def exact_cumsum_def cumsum_def del: not_None_eq)
  have "1 + ?e < 2"
    using e by simp
  moreover have "0 < 1 + ?e"
    using e(1) by (rule add_pos_pos [OF zero_less_one])
  ultimately have h: "1 / 2 < 1 / (1 + ?e)"
    by (simp add: field_simps)
  have "top_p_filter_with exact_torch [Fin 0, Fin (- (1 / 1073741824))] (1 / 2) NegInf =
      Inr [Fin 0, NegInf]"
    unfolding top_p_filter_with_def Let_def s list.map fst_conv snd_conv f c
    using h by (simp add: index_fill_def demo_torch)
  then show ?thesis
    by (simp add: top_filtering_with_def mask_fill_def demo_torch)
qed


end
